theory Spec2Isabelle
  imports Complex_Main
begin

section \<open>Data model of the cube renderer (src/main.cpp)\<close>

text \<open>
  The program computes with C++ \<open>float\<close> and \<open>int\<close>. In this development a \<open>float\<close> is a
  real number and every arithmetic operation on it is exact: rounding, infinities and NaN are
  not represented. An \<open>int\<close> is a mathematical integer that must stay inside the 32-bit
  range; where the C++ value would leave that range (a float to int conversion of a value that
  does not fit, a signed overflow) or where IEEE arithmetic would produce a non-finite value
  that is then converted to \<open>int\<close> (the perspective divide at \<open>z = 0\<close>), the model
  returns \<open>None\<close>. \<open>None\<close> therefore reads "the call has no defined result"; for the loops
  below it also covers a loop that never returns.
\<close>

record Vector3f =
  vx :: real
  vy :: real
  vz :: real

record Dim2i =
  w :: int
  h :: int

subsection \<open>ANSI escape codes\<close>

definition RED :: string where "RED = CHR 0x1B # ''[31m''"

definition GREEN :: string where "GREEN = CHR 0x1B # ''[32m''"

definition YELLOW :: string where "YELLOW = CHR 0x1B # ''[33m''"

definition BLUE :: string where "BLUE = CHR 0x1B # ''[34m''"

definition WHITE :: string where "WHITE = CHR 0x1B # ''[37m''"

definition BLACK :: string where "BLACK = CHR 0x1B # ''[30m''"

definition RESET :: string where "RESET = CHR 0x1B # ''[0m''"

definition BOLD_RED :: string where "BOLD_RED = CHR 0x1B # ''[1;31m''"

text \<open>What the program sends to the terminal, one value per \<open>printf\<close> call of the core:
  \<open>PutCell row col color c\<close> is the call
  \<open>printf("\x1b[%d;%dH%s%s%c", row, col, RESET, color, c)\<close> of \<open>renderFrame\<close>.\<close>

datatype term_out =
    SetCursorHome
  | EraseScreen
  | PutCell int int string char

subsection \<open>Globals\<close>

text \<open>The mutable globals read by the rasterizer: \<open>WIDTH\<close>, \<open>HEIGHT\<close>, \<open>K1\<close>,
  \<open>SPACING\<close> and \<open>rotatedLightSource\<close>.\<close>

record globals =
  WIDTH :: int
  HEIGHT :: int
  K1 :: real
  SPACING :: real
  rotatedLightSource :: Vector3f

definition CUBE_SIZE :: real where "CUBE_SIZE = 1"

definition GRID_SPACING :: real where "GRID_SPACING = 4 / 100"

definition GRID_LINE_COLOR :: string where "GRID_LINE_COLOR = BLACK"

definition K2 :: real where "K2 = 10"

text \<open>\<open>trigValues\<close> is a vector of six floats, always read at the indices 0 to 5:
  \<open>{sinA, cosA, sinB, cosB, sinC, cosC}\<close>.\<close>

record trig =
  sinA :: real
  cosA :: real
  sinB :: real
  cosB :: real
  sinC :: real
  cosC :: real

text \<open>The three buffers every rasterizer routine receives by reference.\<close>

record bufs =
  buffer :: "char list"
  zbuffer :: "real list"
  cbuffer :: "string list"

text \<open>The whole frame state: the current buffers and the previous-frame snapshots.\<close>

record screen =
  cur :: bufs
  buffer_prev :: "char list"
  cbuffer_prev :: "string list"

subsection \<open>Integer conversions\<close>

definition INT_MIN :: int where "INT_MIN = - (2 ^ 31)"

definition INT_MAX :: int where "INT_MAX = 2 ^ 31 - 1"

definition in_int :: "int \<Rightarrow> int option" where
  "in_int n = (if INT_MIN \<le> n \<and> n \<le> INT_MAX then Some n else None)"

text \<open>\<open>static_cast<int>(r)\<close>: the fractional part is discarded (truncation toward zero);
  undefined when the truncated value is not representable.\<close>

definition static_cast_int :: "real \<Rightarrow> int option" where
  "static_cast_int r = in_int (if 0 \<le> r then \<lfloor>r\<rfloor> else \<lceil>r\<rceil>)"

section \<open>Vector math\<close>

definition getVectorMag :: "Vector3f \<Rightarrow> real" where
  "getVectorMag vec =
     (let x = vx vec; y = vy vec; z = vz vec in sqrt (x * x + y * y + z * z))"

definition normVector :: "Vector3f \<Rightarrow> Vector3f" where
  "normVector vec =
     (let x = vx vec; y = vy vec; z = vz vec;
          mag = getVectorMag vec;
          oomag = 1 / mag
      in if mag > 0 then \<lparr>vx = x * oomag, vy = y * oomag, vz = z * oomag\<rparr> else vec)"

section \<open>Rotation, projection and the depth-tested write\<close>

text \<open>The fused rotation matrix, written out in \<open>updateBuffers\<close>, in the three
  \<open>renderCubeAxis\<close> routines and in \<open>main\<close>; \<open>a\<close> multiplies the first column,
  \<open>b\<close> the second, \<open>c\<close> the third.\<close>

definition rotate :: "trig \<Rightarrow> real \<Rightarrow> real \<Rightarrow> real \<Rightarrow> Vector3f" where
  "rotate t a b c =
     \<lparr>vx = cosA t * cosB t * a + (cosA t * sinB t * sinC t - sinA t * cosC t) * b
             + (cosA t * sinB t * cosC t + sinA t * sinC t) * c,
      vy = sinA t * cosB t * a + (sinA t * sinB t * sinC t + cosA t * cosC t) * b
             + (sinA t * sinB t * cosC t - cosA t * sinC t) * c,
      vz = - a * sinB t + b * cosB t * sinC t + c * cosB t * cosC t\<rparr>"

text \<open>Lines 177 to 186 of \<open>updateBuffers\<close>: the rotated point, the inverse depth and the
  linear cell index. The result is \<open>(index, ooz)\<close>.\<close>

definition project :: "globals \<Rightarrow> trig \<Rightarrow> real \<Rightarrow> real \<Rightarrow> real \<Rightarrow> (int \<times> real) option" where
  "project g t i j k =
     (let x = vx (rotate t j i k);
          y = vy (rotate t j i k);
          z = vz (rotate t j i k) + K2
      in if z = 0 then None
         else
           let ooz = 1 / z in
           case static_cast_int (real_of_int (WIDTH g div 2) + K1 g * ooz * x) of
             None \<Rightarrow> None
           | Some xp \<Rightarrow>
               (case static_cast_int (real_of_int (HEIGHT g div 2) - K1 g * ooz * y) of
                  None \<Rightarrow> None
                | Some yp \<Rightarrow>
                    (case in_int (yp * WIDTH g) of
                       None \<Rightarrow> None
                     | Some m \<Rightarrow>
                         (case in_int (xp + m) of
                            None \<Rightarrow> None
                          | Some index \<Rightarrow> Some (index, ooz)))))"

text \<open>The string literal \<open>".,-~:;=!*#$@"\<close> is an array of 13 chars: the twelve glyphs and
  the terminating NUL. Reading it beyond index 12 is undefined.\<close>

definition ramp :: "char list" where
  "ramp = ''.,-~:;=!*#$@''"

definition ramp_literal :: "char list" where
  "ramp_literal = ramp @ [CHR 0x00]"

definition literal_at :: "int \<Rightarrow> char option" where
  "literal_at n =
     (if 0 \<le> n \<and> n < int (length ramp_literal) then Some (ramp_literal ! nat n) else None)"

text \<open>The character selected by line 202, from the luminance and the already converted
  \<open>luminance_index\<close>.\<close>

definition glyph :: "real \<Rightarrow> int \<Rightarrow> char option" where
  "glyph luminance luminance_index = literal_at (if luminance > 0 then luminance_index else 0)"

definition updateBuffers ::
  "globals \<Rightarrow> real \<Rightarrow> real \<Rightarrow> real \<Rightarrow> trig \<Rightarrow> bufs \<Rightarrow> string \<Rightarrow> real \<Rightarrow> bufs option" where
  "updateBuffers g i j k t b color luminance =
     (case project g t i j k of
        None \<Rightarrow> None
      | Some (index, ooz) \<Rightarrow>
          (let indexLimit = int (length (buffer b)) in
           case static_cast_int (luminance * 11) of
             None \<Rightarrow> None
           | Some luminance_index \<Rightarrow>
               if index \<ge> 0 \<and> index < indexLimit then
                 if ooz > zbuffer b ! nat index then
                   (case glyph luminance luminance_index of
                      None \<Rightarrow> None
                    | Some c \<Rightarrow>
                        Some (b\<lparr>zbuffer := (zbuffer b)[nat index := ooz],
                                cbuffer := (cbuffer b)[nat index := color],
                                buffer := (buffer b)[nat index := c]\<rparr>))
                 else Some b
               else Some b))"

text \<open>The three buffers have one length in every state the program reaches; the reads and
  writes of \<open>updateBuffers\<close> at \<open>index < buffer.size()\<close> are within all three only then.\<close>

definition bufs_ok :: "bufs \<Rightarrow> bool" where
  "bufs_ok b \<longleftrightarrow> length (zbuffer b) = length (buffer b) \<and> length (cbuffer b) = length (buffer b)"

section \<open>Surface rasterizer\<close>

text \<open>The loop \<open>for (float v = start; v <= CUBE_SIZE/2; v += SPACING) body\<close>, threading the
  state the body updates. With \<open>SPACING \<le> 0\<close> the C++ loop never ends; here the result is
  then \<open>None\<close>, as it is when the body has no defined result.\<close>

partial_function (option) sweep ::
  "real \<Rightarrow> (real \<Rightarrow> 's \<Rightarrow> 's option) \<Rightarrow> real \<Rightarrow> 's \<Rightarrow> 's option" where
  "sweep sp body v s =
     (if v \<le> CUBE_SIZE / 2 then Option.bind (body v s) (sweep sp body (v + sp)) else Some s)"

declare sweep.simps [code]

text \<open>Lines 239 to 257 (and their copies in the B and C routines): the colours of one
  sample point; \<open>a\<close> is the outer loop variable, \<open>b\<close> the inner one. The result is
  \<open>(charColor1, charColor2)\<close>.\<close>

definition gridColors :: "real \<Rightarrow> real \<Rightarrow> string \<Rightarrow> string \<Rightarrow> string \<times> string" where
  "gridColors a b color1 color2 =
     (if a > (- CUBE_SIZE / 2 + CUBE_SIZE / 3) - GRID_SPACING \<and>
         a < (- CUBE_SIZE / 2 + CUBE_SIZE / 3) + GRID_SPACING
      then (GRID_LINE_COLOR, GRID_LINE_COLOR)
      else if a > (CUBE_SIZE / 2 - CUBE_SIZE / 3) - GRID_SPACING \<and>
              a < (CUBE_SIZE / 2 - CUBE_SIZE / 3) + GRID_SPACING
      then (GRID_LINE_COLOR, GRID_LINE_COLOR)
      else if b > (- CUBE_SIZE / 2 + CUBE_SIZE / 3) - GRID_SPACING \<and>
              b < (- CUBE_SIZE / 2 + CUBE_SIZE / 3) + GRID_SPACING
      then (GRID_LINE_COLOR, GRID_LINE_COLOR)
      else if b > (CUBE_SIZE / 2 - CUBE_SIZE / 3) - GRID_SPACING \<and>
              b < (CUBE_SIZE / 2 - CUBE_SIZE / 3) + GRID_SPACING
      then (GRID_LINE_COLOR, GRID_LINE_COLOR)
      else (color1, color2))"

text \<open>The luminance of a face: its rotated, normalised normal against the rotated light.\<close>

definition faceLuminance :: "globals \<Rightarrow> trig \<Rightarrow> Vector3f \<Rightarrow> real" where
  "faceLuminance g t surfaceNormal =
     (let rotatedSurfaceNormal =
            normVector (rotate t (vx surfaceNormal) (vy surfaceNormal) (vz surfaceNormal))
      in vx rotatedSurfaceNormal * vx (rotatedLightSource g)
       + vy rotatedSurfaceNormal * vy (rotatedLightSource g)
       + vz rotatedSurfaceNormal * vz (rotatedLightSource g))"

text \<open>The bodies of the inner loops: the colours of the point, then the front face write and
  the back face write.\<close>

definition point_A ::
  "globals \<Rightarrow> trig \<Rightarrow> string \<Rightarrow> string \<Rightarrow> real \<Rightarrow> real \<Rightarrow> real \<Rightarrow> real \<Rightarrow> real \<Rightarrow> bufs \<Rightarrow> bufs option" where
  "point_A g t color1 color2 luminance_front luminance_back k i j b =
     (case gridColors i j color1 color2 of
        (charColor1, charColor2) \<Rightarrow>
          Option.bind (updateBuffers g i j k t b charColor1 luminance_front)
            (\<lambda>b'. updateBuffers g i j (- k) t b' charColor2 luminance_back))"

definition point_B ::
  "globals \<Rightarrow> trig \<Rightarrow> string \<Rightarrow> string \<Rightarrow> real \<Rightarrow> real \<Rightarrow> real \<Rightarrow> real \<Rightarrow> real \<Rightarrow> bufs \<Rightarrow> bufs option" where
  "point_B g t color1 color2 luminance_front luminance_back i j k b =
     (case gridColors j k color1 color2 of
        (charColor1, charColor2) \<Rightarrow>
          Option.bind (updateBuffers g i j k t b charColor1 luminance_front)
            (\<lambda>b'. updateBuffers g (- i) j k t b' charColor2 luminance_back))"

definition point_C ::
  "globals \<Rightarrow> trig \<Rightarrow> string \<Rightarrow> string \<Rightarrow> real \<Rightarrow> real \<Rightarrow> real \<Rightarrow> real \<Rightarrow> real \<Rightarrow> bufs \<Rightarrow> bufs option" where
  "point_C g t color1 color2 luminance_front luminance_back j k i b =
     (case gridColors k i color1 color2 of
        (charColor1, charColor2) \<Rightarrow>
          Option.bind (updateBuffers g i j k t b charColor1 luminance_front)
            (\<lambda>b'. updateBuffers g i (- j) k t b' charColor2 luminance_back))"

definition renderCubeAxis_A :: "globals \<Rightarrow> trig \<Rightarrow> bufs \<Rightarrow> string \<Rightarrow> string \<Rightarrow> bufs option" where
  "renderCubeAxis_A g t b color1 color2 =
     (let luminance_front = faceLuminance g t \<lparr>vx = 0, vy = 0, vz = CUBE_SIZE\<rparr>;
          luminance_back = faceLuminance g t \<lparr>vx = 0, vy = 0, vz = - CUBE_SIZE\<rparr>;
          k = CUBE_SIZE / 2
      in sweep (SPACING g)
           (\<lambda>i. sweep (SPACING g)
                  (\<lambda>j. point_A g t color1 color2 luminance_front luminance_back k i j)
                  (- CUBE_SIZE / 2))
           (- CUBE_SIZE / 2) b)"

definition renderCubeAxis_B :: "globals \<Rightarrow> trig \<Rightarrow> bufs \<Rightarrow> string \<Rightarrow> string \<Rightarrow> bufs option" where
  "renderCubeAxis_B g t b color1 color2 =
     (let luminance_front = faceLuminance g t \<lparr>vx = 0, vy = CUBE_SIZE, vz = 0\<rparr>;
          luminance_back = faceLuminance g t \<lparr>vx = 0, vy = - CUBE_SIZE, vz = 0\<rparr>;
          i = CUBE_SIZE / 2
      in sweep (SPACING g)
           (\<lambda>j. sweep (SPACING g)
                  (\<lambda>k. point_B g t color1 color2 luminance_front luminance_back i j k)
                  (- CUBE_SIZE / 2))
           (- CUBE_SIZE / 2) b)"

definition renderCubeAxis_C :: "globals \<Rightarrow> trig \<Rightarrow> bufs \<Rightarrow> string \<Rightarrow> string \<Rightarrow> bufs option" where
  "renderCubeAxis_C g t b color1 color2 =
     (let luminance_front = faceLuminance g t \<lparr>vx = CUBE_SIZE, vy = 0, vz = 0\<rparr>;
          luminance_back = faceLuminance g t \<lparr>vx = - CUBE_SIZE, vy = 0, vz = 0\<rparr>;
          j = CUBE_SIZE / 2
      in sweep (SPACING g)
           (\<lambda>k. sweep (SPACING g)
                  (\<lambda>i. point_C g t color1 color2 luminance_front luminance_back j k i)
                  (- CUBE_SIZE / 2))
           (- CUBE_SIZE / 2) b)"

section \<open>Frame compositor\<close>

text \<open>The diff-emit loop of \<open>renderFrame\<close> (lines 408 to 420), from cell \<open>index\<close> on.
  \<open>index % WIDTH\<close> and \<open>index / WIDTH\<close> are unsigned operations on a \<open>size_t\<close>; they
  are the integer quotient and remainder for the positive \<open>WIDTH\<close> of every state the program
  reaches.\<close>

function diffEmit ::
  "int \<Rightarrow> char list \<Rightarrow> char list \<Rightarrow> string list \<Rightarrow> string list \<Rightarrow> nat \<Rightarrow> term_out list" where
  "diffEmit W buf prev cbuf cprev index =
     (if index < length buf then
        (if buf ! index = prev ! index \<and> cbuf ! index = cprev ! index
         then diffEmit W buf prev cbuf cprev (Suc index)
         else
           (let x = int index mod W; y = int index div W
            in PutCell (y + 1) (x + 1) (cbuf ! index) (buf ! index)
                 # diffEmit W buf prev cbuf cprev (Suc index)))
      else [])"
  by pat_completeness auto
termination
  by (relation "measure (\<lambda>(W, buf, prev, cbuf, cprev, index). length buf - index)") auto

declare diffEmit.simps [simp del]

text \<open>\<open>std::fill\<close> over a whole vector.\<close>

definition fill :: "'a list \<Rightarrow> 'a \<Rightarrow> 'a list" where
  "fill xs v = replicate (length xs) v"

text \<open>Lines 398 to 400 of \<open>renderFrame\<close>: the three pairs of faces, each with its two
  colours.\<close>

definition populate :: "globals \<Rightarrow> trig \<Rightarrow> bufs \<Rightarrow> bufs option" where
  "populate g t b0 =
     Option.bind (renderCubeAxis_A g t b0 YELLOW WHITE) (\<lambda>b1.
     Option.bind (renderCubeAxis_B g t b1 GREEN BLUE) (\<lambda>b2.
     renderCubeAxis_C g t b2 BOLD_RED RED))"

text \<open>\<open>renderFrame\<close>: the snapshot, the clear, the three face pairs and the diff-emit pass.
  The result is the new frame state and what was printed.\<close>

definition renderFrame :: "globals \<Rightarrow> trig \<Rightarrow> screen \<Rightarrow> (screen \<times> term_out list) option" where
  "renderFrame g t sc =
     (let buffer_prev' = buffer (cur sc);
          cbuffer_prev' = cbuffer (cur sc);
          b0 = \<lparr>buffer = fill (buffer (cur sc)) CHR '' '',
                zbuffer = fill (zbuffer (cur sc)) 0,
                cbuffer = fill (cbuffer (cur sc)) RESET\<rparr>
      in case populate g t b0 of
           None \<Rightarrow> None
         | Some b3 \<Rightarrow>
             Some (\<lparr>cur = b3, buffer_prev = buffer_prev', cbuffer_prev = cbuffer_prev'\<rparr>,
                   SetCursorHome
                     # diffEmit (WIDTH g) (buffer b3) buffer_prev' (cbuffer b3) cbuffer_prev' 0))"

section \<open>Resize handling\<close>

definition clearBuffers :: "screen \<Rightarrow> screen" where
  "clearBuffers sc =
     \<lparr>cur = \<lparr>buffer = fill (buffer (cur sc)) CHR '' '',
              zbuffer = fill (zbuffer (cur sc)) 0,
              cbuffer = fill (cbuffer (cur sc)) RESET\<rparr>,
      buffer_prev = fill (buffer_prev sc) CHR '' '',
      cbuffer_prev = fill (cbuffer_prev sc) RESET\<rparr>"

text \<open>\<open>std::vector::resize(n)\<close>: the first \<open>n\<close> elements are kept, missing ones are
  value-initialised.\<close>

definition resize :: "nat \<Rightarrow> 'a \<Rightarrow> 'a list \<Rightarrow> 'a list" where
  "resize n d xs = take n xs @ replicate (n - length xs) d"

text \<open>\<open>WIDTH * HEIGHT\<close> is an \<open>int\<close> product converted to \<open>size_t\<close>; no result when it
  overflows or is negative.\<close>

definition resizeBuffers :: "globals \<Rightarrow> screen \<Rightarrow> screen option" where
  "resizeBuffers g sc =
     (case in_int (WIDTH g * HEIGHT g) of
        None \<Rightarrow> None
      | Some n \<Rightarrow>
          if n < 0 then None
          else Some \<lparr>cur = \<lparr>buffer = resize (nat n) (CHR 0x00) (buffer (cur sc)),
                            zbuffer = resize (nat n) 0 (zbuffer (cur sc)),
                            cbuffer = resize (nat n) [] (cbuffer (cur sc))\<rparr>,
                    buffer_prev = resize (nat n) (CHR 0x00) (buffer_prev sc),
                    cbuffer_prev = resize (nat n) [] (cbuffer_prev sc)\<rparr>)"

text \<open>\<open>updateDim\<close>, with the answer of \<open>getTerminalDim\<close> as its argument (\<open>{0, 0}\<close>
  when the query failed).\<close>

definition updateDim ::
  "Dim2i \<Rightarrow> globals \<Rightarrow> screen \<Rightarrow> (globals \<times> screen \<times> term_out list) option" where
  "updateDim terminalDim g sc =
     (if w terminalDim \<noteq> 0 \<and> h terminalDim \<noteq> 0 then
        (let g' = g\<lparr>WIDTH := w terminalDim,
                     HEIGHT := h terminalDim,
                     K1 := (real_of_int (w terminalDim) * K2 * 3) / (8 * (sqrt 3 * CUBE_SIZE)),
                     SPACING := 3 / real_of_int (w terminalDim)\<rparr>
         in case resizeBuffers g' sc of
              None \<Rightarrow> None
            | Some sc' \<Rightarrow> Some (g', clearBuffers sc', [EraseScreen]))
      else Some (g, sc, []))"

section \<open>The program's initial state\<close>

text \<open>The initialisers of the globals (lines 117 to 136).\<close>

definition initial_globals :: globals where
  "initial_globals =
     \<lparr>WIDTH = 50, HEIGHT = 25,
      K1 = (real_of_int 50 * K2 * 3) / (8 * (sqrt 3 * CUBE_SIZE)),
      SPACING = 3 / real_of_int 50,
      rotatedLightSource = \<lparr>vx = 0, vy = 1, vz = - 1\<rparr>\<rparr>"

definition initial_bufs :: bufs where
  "initial_bufs =
     \<lparr>buffer = replicate (nat (50 * 25)) CHR '' '',
      zbuffer = replicate (nat (50 * 25)) 0,
      cbuffer = replicate (nat (50 * 25)) RESET\<rparr>"

definition initial_screen :: screen where
  "initial_screen =
     \<lparr>cur = initial_bufs,
      buffer_prev = replicate (nat (50 * 25)) CHR '' '',
      cbuffer_prev = replicate (nat (50 * 25)) RESET\<rparr>"

text \<open>The trig cache \<open>main\<close> computes from the three angles.\<close>

definition trigValues :: "real \<Rightarrow> real \<Rightarrow> real \<Rightarrow> trig" where
  "trigValues A B C =
     \<lparr>sinA = sin A, cosA = cos A, sinB = sin B, cosB = cos B, sinC = sin C, cosC = cos C\<rparr>"

text \<open>\<open>main\<close> rotates \<open>lightSource\<close> by the angles \<open>D = E = F = 0\<close> and normalises it
  (lines 516 to 529) before it renders the first frame. \<open>main_globals\<close> are the globals at
  that point when the dimensions are still the initial ones.\<close>

definition lightSource :: Vector3f where
  "lightSource = \<lparr>vx = 0, vy = 1, vz = - 1\<rparr>"

definition main_globals :: globals where
  "main_globals =
     initial_globals\<lparr>rotatedLightSource :=
       normVector (rotate (trigValues 0 0 0) (vx lightSource) (vy lightSource) (vz lightSource))\<rparr>"

section \<open>Notions used to state the properties\<close>

text \<open>The glyph, colour and depth stored for one cell.\<close>

definition cell :: "bufs \<Rightarrow> nat \<Rightarrow> char \<times> string \<times> real" where
  "cell b n = (buffer b ! n, cbuffer b ! n, zbuffer b ! n)"



definition depth_le :: "bufs \<Rightarrow> bufs \<Rightarrow> bool" where
  "depth_le b b' \<longleftrightarrow>
     length (zbuffer b') = length (zbuffer b) \<and>
     (\<forall>n < length (zbuffer b). zbuffer b ! n \<le> zbuffer b' ! n)"

definition same_size :: "bufs \<Rightarrow> bufs \<Rightarrow> bool" where
  "same_size b b' \<longleftrightarrow>
     length (buffer b') = length (buffer b) \<and>
     length (zbuffer b') = length (zbuffer b) \<and>
     length (cbuffer b') = length (cbuffer b)"

text \<open>What every step of the rasterizer preserves: the buffer sizes, and no stored depth
  decreases.\<close>

definition frame_step :: "bufs \<Rightarrow> bufs \<Rightarrow> bool" where
  "frame_step b b' \<longleftrightarrow> same_size b b' \<and> depth_le b b'"

text \<open>The cell update the diff-emit pass prints for cell \<open>n\<close>, and the test it prints it on:
  the glyph or the colour of the cell differs from the snapshot.\<close>

definition emit :: "int \<Rightarrow> char list \<Rightarrow> string list \<Rightarrow> nat \<Rightarrow> term_out" where
  "emit W buf cbuf n = PutCell (int n div W + 1) (int n mod W + 1) (cbuf ! n) (buf ! n)"

definition changed :: "char list \<Rightarrow> char list \<Rightarrow> string list \<Rightarrow> string list \<Rightarrow> nat \<Rightarrow> bool" where
  "changed buf prev cbuf cprev n \<longleftrightarrow> \<not> (buf ! n = prev ! n \<and> cbuf ! n = cprev ! n)"

text \<open>The grid-line bands as the specification words them: within \<open>GRID_SPACING\<close> of the
  position one third, or two thirds, of the way across the face.\<close>

definition in_band :: "real \<Rightarrow> bool" where
  "in_band v \<longleftrightarrow>
     \<bar>v - (- CUBE_SIZE / 2 + CUBE_SIZE / 3)\<bar> < GRID_SPACING \<or>
     \<bar>v - (- CUBE_SIZE / 2 + 2 * CUBE_SIZE / 3)\<bar> < GRID_SPACING"

text \<open>Truncation toward zero, and the range of a 32-bit \<open>int\<close>.\<close>

definition trunc_toward_zero :: "real \<Rightarrow> int" where
  "trunc_toward_zero r = (if r < 0 then - \<lfloor>- r\<rfloor> else \<lfloor>r\<rfloor>)"

definition representable :: "int \<Rightarrow> bool" where
  "representable n \<longleftrightarrow> INT_MIN \<le> n \<and> n \<le> INT_MAX"

text \<open>"Every cell is considered changed": the output addresses each of the \<open>n\<close> cells of a
  screen \<open>W\<close> columns wide.\<close>

definition addresses_every_cell :: "int \<Rightarrow> nat \<Rightarrow> term_out list \<Rightarrow> bool" where
  "addresses_every_cell W n out \<longleftrightarrow>
     (\<forall>i < n. \<exists>color c. PutCell (int i div W + 1) (int i mod W + 1) color c \<in> set out)"

text \<open>A trig cache of sines and cosines. Globals as \<open>updateDim\<close> leaves them for a terminal
  of at most 10000 by 10000 cells, with a light of magnitude at most 1: for these the
  projection of every point of the cube is defined.\<close>

definition unit_trig :: "trig \<Rightarrow> bool" where
  "unit_trig t \<longleftrightarrow>
     (sinA t)\<^sup>2 + (cosA t)\<^sup>2 = 1 \<and> (sinB t)\<^sup>2 + (cosB t)\<^sup>2 = 1 \<and> (sinC t)\<^sup>2 + (cosC t)\<^sup>2 = 1"

definition globals_ok :: "globals \<Rightarrow> bool" where
  "globals_ok g \<longleftrightarrow>
     0 < WIDTH g \<and> WIDTH g \<le> 10000 \<and> 0 < HEIGHT g \<and> HEIGHT g \<le> 10000 \<and>
     K1 g = (real_of_int (WIDTH g) * K2 * 3) / (8 * (sqrt 3 * CUBE_SIZE)) \<and>
     SPACING g = 3 / real_of_int (WIDTH g) \<and>
     getVectorMag (rotatedLightSource g) \<le> 1"

section \<open>A small terminal\<close>

text \<open>The globals and the cleared buffers after a resize to 2 columns by 2 rows, and the
  buffers after each pair of faces for the identity rotation \<open>t0\<close> (the angles 0, 0, 0).
  With \<open>SPACING = 3 / 2\<close> every face is sampled at one point, its corner
  \<open>(- 1 / 2, - 1 / 2)\<close>.\<close>

definition small_globals :: globals where
  "small_globals = \<lparr>WIDTH = 2, HEIGHT = 2, K1 = (real_of_int 2 * K2 * 3) / (8 * (sqrt 3 * CUBE_SIZE)),
          SPACING = 3 / real_of_int 2,
          rotatedLightSource = \<lparr>vx = 0, vy = 1 / sqrt 2, vz = - 1 / sqrt 2\<rparr>\<rparr>"

definition blank :: "nat \<Rightarrow> bufs" where
  "blank n = \<lparr>buffer = replicate n CHR '' '', zbuffer = replicate n 0, cbuffer = replicate n RESET\<rparr>"

definition blank_screen :: "nat \<Rightarrow> screen" where
  "blank_screen n = \<lparr>cur = blank n, buffer_prev = replicate n CHR '' '', cbuffer_prev = replicate n RESET\<rparr>"

abbreviation t0 :: trig where
  "t0 \<equiv> trigValues 0 0 0"

definition frame_A :: bufs where
  "frame_A = \<lparr>buffer = [CHR '' '', CHR '' '', CHR ''!'', CHR '' ''], zbuffer = [0, 0, 2 / 19, 0],
              cbuffer = [RESET, RESET, WHITE, RESET]\<rparr>"

definition frame_B :: bufs where
  "frame_B = \<lparr>buffer = [CHR ''!'', CHR '' '', CHR ''!'', CHR '' ''], zbuffer = [2 / 19, 0, 2 / 19, 0],
              cbuffer = [GREEN, RESET, WHITE, RESET]\<rparr>"

definition frame_C :: bufs where
  "frame_C = \<lparr>buffer = [CHR ''!'', CHR '' '', CHR ''!'', CHR ''.''],
              zbuffer = [2 / 19, 0, 2 / 19, 2 / 19],
              cbuffer = [GREEN, RESET, WHITE, BOLD_RED]\<rparr>"

section \<open>Facts about the vector math\<close>

text \<open>In exact arithmetic \<open>normVector\<close> gives a vector of magnitude 1, or returns a vector
  of magnitude 0 as it is; the luminance of a face against a light of magnitude at most 1
  lies between -1 and 1.\<close>

lemma getVectorMag_nonneg: "0 \<le> getVectorMag v"
  by (simp add: getVectorMag_def Let_def)

lemma normVector_exact:
  "(getVectorMag v > 0 \<longrightarrow> getVectorMag (normVector v) = 1)
   \<and> (getVectorMag v = 0 \<longrightarrow> normVector v = v)"
proof (intro conjI impI)
  assume "getVectorMag v = 0"
  then show "normVector v = v" by (simp add: normVector_def)
next
  assume pos: "getVectorMag v > 0"
  define m where "m = getVectorMag v"
  have m2: "m * m = vx v * vx v + vy v * vy v + vz v * vz v"
    unfolding m_def getVectorMag_def Let_def
    by (simp add: real_sqrt_mult_self)
  have n: "normVector v = \<lparr>vx = vx v * (1 / m), vy = vy v * (1 / m), vz = vz v * (1 / m)\<rparr>"
    using pos by (simp add: normVector_def m_def Let_def)
  have "vx v * (1 / m) * (vx v * (1 / m)) + vy v * (1 / m) * (vy v * (1 / m))
          + vz v * (1 / m) * (vz v * (1 / m))
        = (vx v * vx v + vy v * vy v + vz v * vz v) / (m * m)"
    by (simp add: add_divide_distrib)
  also have "\<dots> = 1"
  proof -
    have "m * m \<noteq> 0" using pos by (simp add: m_def)
    then show ?thesis unfolding m2 [symmetric] by simp
  qed
  finally show "getVectorMag (normVector v) = 1"
    by (simp add: n getVectorMag_def Let_def)
qed

lemma normVector_mag_le: "getVectorMag (normVector v) \<le> 1"
proof (cases "getVectorMag v > 0")
  case True
  then show ?thesis using normVector_exact by simp
next
  case False
  then have "getVectorMag v = 0" using getVectorMag_nonneg [of v] by linarith
  then show ?thesis using normVector_exact by simp
qed

lemma dot_le_mag:
  "\<bar>vx u * vx l + vy u * vy l + vz u * vz l\<bar> \<le> getVectorMag u * getVectorMag l"
proof -
  let ?d = "vx u * vx l + vy u * vy l + vz u * vz l"
  let ?U = "vx u * vx u + vy u * vy u + vz u * vz u"
  let ?L = "vx l * vx l + vy l * vy l + vz l * vz l"
  have "?U * ?L - ?d * ?d
          = (vx u * vy l - vy u * vx l)\<^sup>2 + (vx u * vz l - vz u * vx l)\<^sup>2
            + (vy u * vz l - vz u * vy l)\<^sup>2"
    by (simp add: power2_eq_square algebra_simps)
  moreover have "0 \<le> (vx u * vy l - vy u * vx l)\<^sup>2 + (vx u * vz l - vz u * vx l)\<^sup>2
            + (vy u * vz l - vz u * vy l)\<^sup>2"
    by simp
  ultimately have "?d * ?d \<le> ?U * ?L" by linarith
  then have "\<bar>?d\<bar>\<^sup>2 \<le> ?U * ?L" by (simp add: power2_eq_square)
  then have "\<bar>?d\<bar> \<le> sqrt (?U * ?L)" by (rule real_le_rsqrt)
  then show ?thesis
    by (simp add: getVectorMag_def Let_def real_sqrt_mult)
qed

lemma faceLuminance_range:
  assumes "getVectorMag (rotatedLightSource g) \<le> 1"
  shows "\<bar>faceLuminance g t n\<bar> \<le> 1"
proof -
  let ?u = "normVector (rotate t (vx n) (vy n) (vz n))"
  have "\<bar>faceLuminance g t n\<bar> \<le> getVectorMag ?u * getVectorMag (rotatedLightSource g)"
    unfolding faceLuminance_def Let_def by (rule dot_le_mag)
  also have "\<dots> \<le> 1 * 1"
    using normVector_mag_le assms getVectorMag_nonneg by (intro mult_mono) auto
  finally show ?thesis by simp
qed

section \<open>Facts about the depth-tested write\<close>

lemmas color_defs =
  RED_def GREEN_def YELLOW_def BLUE_def WHITE_def BLACK_def RESET_def BOLD_RED_def

lemma updateBuffers_eq:
  assumes "project g t i j k = Some (index, ooz)"
    and "static_cast_int (luminance * 11) = Some li"
  shows "updateBuffers g i j k t b color luminance =
     (if 0 \<le> index \<and> index < int (length (buffer b)) \<and> zbuffer b ! nat index < ooz
      then (case glyph luminance li of
              None \<Rightarrow> None
            | Some c \<Rightarrow> Some (b\<lparr>zbuffer := (zbuffer b)[nat index := ooz],
                                cbuffer := (cbuffer b)[nat index := color],
                                buffer := (buffer b)[nat index := c]\<rparr>))
      else Some b)"
  using assms by (simp add: updateBuffers_def)

lemma updateBuffers_cases:
  assumes "updateBuffers g i j k t b color luminance = Some b'"
  obtains (unchanged) "b' = b"
  | (written) index ooz li c where "project g t i j k = Some (index, ooz)"
      "static_cast_int (luminance * 11) = Some li" "glyph luminance li = Some c"
      "0 \<le> index" "index < int (length (buffer b))" "zbuffer b ! nat index < ooz"
      "b' = b\<lparr>zbuffer := (zbuffer b)[nat index := ooz],
                                cbuffer := (cbuffer b)[nat index := color],
                                buffer := (buffer b)[nat index := c]\<rparr>"
proof -
  obtain index ooz where p: "project g t i j k = Some (index, ooz)"
    using assms by (cases "project g t i j k") (auto simp: updateBuffers_def)
  obtain li where l: "static_cast_int (luminance * 11) = Some li"
    using assms p by (cases "static_cast_int (luminance * 11)") (auto simp: updateBuffers_def)
  note eq = updateBuffers_eq [OF p l, of b color]
  show thesis
  proof (cases "0 \<le> index \<and> index < int (length (buffer b)) \<and> zbuffer b ! nat index < ooz")
    case False
    with eq assms have "b' = b" by simp
    then show thesis by (rule unchanged)
  next
    case True
    with eq assms obtain c where c: "glyph luminance li = Some c"
      by (cases "glyph luminance li") auto
    with eq assms True have "b' = b\<lparr>zbuffer := (zbuffer b)[nat index := ooz],
                                cbuffer := (cbuffer b)[nat index := color],
                                buffer := (buffer b)[nat index := c]\<rparr>" by simp
    with p l c True show thesis by (intro written) auto
  qed
qed

lemma updateBuffers_write:
  assumes "project g t i j k = Some (index, ooz)"
    and "static_cast_int (luminance * 11) = Some li"
    and "glyph luminance li = Some c"
    and "0 \<le> index" "index < int (length (buffer b))" "zbuffer b ! nat index < ooz"
  shows "updateBuffers g i j k t b color luminance =
     Some (b\<lparr>zbuffer := (zbuffer b)[nat index := ooz],
             cbuffer := (cbuffer b)[nat index := color],
             buffer := (buffer b)[nat index := c]\<rparr>)"
  using assms by (simp add: updateBuffers_eq)

lemma updateBuffers_keep:
  assumes "project g t i j k = Some (index, ooz)"
    and "static_cast_int (luminance * 11) = Some li"
    and "index < 0 \<or> int (length (buffer b)) \<le> index \<or> ooz \<le> zbuffer b ! nat index"
  shows "updateBuffers g i j k t b color luminance = Some b"
  using assms by (auto simp add: updateBuffers_eq)

lemma cell_write:
  assumes "bufs_ok b" "n < length (buffer b)"
  shows "cell (b\<lparr>zbuffer := (zbuffer b)[n := ooz], cbuffer := (cbuffer b)[n := color],
                 buffer := (buffer b)[n := c]\<rparr>) n = (c, color, ooz)"
  using assms by (simp add: cell_def bufs_ok_def)

lemma length_ramp: "length ramp = 12"
  by (simp add: ramp_def)






lemma updateBuffers_depth_le:
  assumes "updateBuffers g i j k t b color luminance = Some b'"
  shows "depth_le b b'"
  using assms
proof (rule updateBuffers_cases)
  assume "b' = b" then show ?thesis by (simp add: depth_le_def)
next
  fix index ooz li c
  assume w: "zbuffer b ! nat index < ooz"
    "b' = b\<lparr>zbuffer := (zbuffer b)[nat index := ooz], cbuffer := (cbuffer b)[nat index := color],
            buffer := (buffer b)[nat index := c]\<rparr>"
  have "zbuffer b ! n \<le> (zbuffer b)[nat index := ooz] ! n" if "n < length (zbuffer b)" for n
    using that w(1) by (cases "n = nat index") auto
  with w(2) show ?thesis
    by (simp add: depth_le_def)
qed


lemma depth_le_refl: "depth_le b b"
  by (simp add: depth_le_def)

lemma depth_le_trans: "depth_le a b \<Longrightarrow> depth_le b c \<Longrightarrow> depth_le a c"
  unfolding depth_le_def by (metis order_trans)

lemma same_size_refl: "same_size b b"
  by (simp add: same_size_def)

lemma same_size_trans: "same_size a b \<Longrightarrow> same_size b c \<Longrightarrow> same_size a c"
  by (simp add: same_size_def)

lemma updateBuffers_same_size:
  "updateBuffers g i j k t b color luminance = Some b' \<Longrightarrow> same_size b b'"
  by (erule updateBuffers_cases) (auto simp: same_size_def)

lemma frame_step_refl: "frame_step b b"
  by (simp add: frame_step_def same_size_refl depth_le_refl)

lemma frame_step_trans: "frame_step a b \<Longrightarrow> frame_step b c \<Longrightarrow> frame_step a c"
  unfolding frame_step_def using same_size_trans depth_le_trans by blast

lemma updateBuffers_frame_step:
  "updateBuffers g i j k t b color luminance = Some b' \<Longrightarrow> frame_step b b'"
  by (simp add: frame_step_def updateBuffers_same_size updateBuffers_depth_le)

lemma static_cast_int_eq:
  "static_cast_int r =
     (if representable (trunc_toward_zero r) then Some (trunc_toward_zero r) else None)"
  by (simp add: static_cast_int_def in_int_def trunc_toward_zero_def representable_def
      ceiling_def)

lemma in_int_eq: "in_int m = (if representable m then Some m else None)"
  by (simp add: in_int_def representable_def)

lemma rotate_norm:
  assumes "(sinA t)\<^sup>2 + (cosA t)\<^sup>2 = 1" "(sinB t)\<^sup>2 + (cosB t)\<^sup>2 = 1" "(sinC t)\<^sup>2 + (cosC t)\<^sup>2 = 1"
  shows "(vx (rotate t a b c))\<^sup>2 + (vy (rotate t a b c))\<^sup>2 + (vz (rotate t a b c))\<^sup>2
           = a\<^sup>2 + b\<^sup>2 + c\<^sup>2"
proof -
  define sa ca sb cb sc cc where "sa = sinA t" "ca = cosA t" "sb = sinB t" "cb = cosB t"
    "sc = sinC t" "cc = cosC t"
  have "(ca * cb * a + (ca * sb * sc - sa * cc) * b + (ca * sb * cc + sa * sc) * c)\<^sup>2
      + (sa * cb * a + (sa * sb * sc + ca * cc) * b + (sa * sb * cc - ca * sc) * c)\<^sup>2
      + (- a * sb + b * cb * sc + c * cb * cc)\<^sup>2
      = (sa\<^sup>2 + ca\<^sup>2) * (cb\<^sup>2 * a\<^sup>2 + sb\<^sup>2 * (sc * b + cc * c)\<^sup>2 + 2 * cb * sb * a * (sc * b + cc * c))
        + (sa\<^sup>2 + ca\<^sup>2) * (cc * b - sc * c)\<^sup>2
        + (- a * sb + cb * (sc * b + cc * c))\<^sup>2"
    by (simp add: power2_eq_square algebra_simps)
  also have "\<dots> = (cb\<^sup>2 + sb\<^sup>2) * a\<^sup>2 + (sb\<^sup>2 + cb\<^sup>2) * (sc * b + cc * c)\<^sup>2 + (cc * b - sc * c)\<^sup>2"
    using assms(1) by (simp add: sa_ca_sb_cb_sc_cc_def power2_eq_square algebra_simps)
  also have "\<dots> = a\<^sup>2 + ((sc * b + cc * c)\<^sup>2 + (cc * b - sc * c)\<^sup>2)"
    using assms(2) by (simp add: sa_ca_sb_cb_sc_cc_def add.commute)
  also have "(sc * b + cc * c)\<^sup>2 + (cc * b - sc * c)\<^sup>2 = (sc\<^sup>2 + cc\<^sup>2) * (b\<^sup>2 + c\<^sup>2)"
    by (simp add: power2_eq_square algebra_simps)
  also have "a\<^sup>2 + (sc\<^sup>2 + cc\<^sup>2) * (b\<^sup>2 + c\<^sup>2) = a\<^sup>2 + b\<^sup>2 + c\<^sup>2"
    using assms(3) by (simp add: sa_ca_sb_cb_sc_cc_def)
  finally show ?thesis
    by (simp add: rotate_def sa_ca_sb_cb_sc_cc_def)
qed

lemma project_iff:
  "project g t i j k = Some (index, ooz) \<longleftrightarrow>
     (let x = vx (rotate t j i k);
          y = vy (rotate t j i k);
          z = vz (rotate t j i k) + K2;
          one_over_z = 1 / z;
          screenX = real_of_int (WIDTH g div 2) + K1 g * one_over_z * x;
          screenY = real_of_int (HEIGHT g div 2) - K1 g * one_over_z * y;
          xp = trunc_toward_zero screenX;
          yp = trunc_toward_zero screenY
      in z \<noteq> 0 \<and> ooz = one_over_z \<and> index = xp + yp * WIDTH g
         \<and> representable xp \<and> representable yp
         \<and> representable (yp * WIDTH g) \<and> representable (xp + yp * WIDTH g))"
proof (cases "vz (rotate t j i k) + K2 = 0")
  case True
  then show ?thesis by (simp add: project_def Let_def)
next
  case False
  then show ?thesis
    by (simp add: project_def Let_def static_cast_int_eq in_int_eq) blast
qed

section \<open>Facts about the loops, the rasterizer and the compositor\<close>

lemma sweep_invariant:
  assumes run: "sweep sp body v s = Some s'" and start: "P s"
    and step: "\<And>v s s'. P s \<Longrightarrow> body v s = Some s' \<Longrightarrow> P s'"
  shows "P s'"
proof -
  let ?Q = "\<lambda>(sp::real) body (v::real) s s'.
              (\<forall>v s s'. P s \<longrightarrow> body v s = Some s' \<longrightarrow> P s') \<longrightarrow> P s \<longrightarrow> P s'"
  have "?Q sp body v s s'"
  proof (rule sweep.raw_induct [where P = ?Q, OF _ run])
    fix f sp body v s s'
    assume IH: "\<And>sp body v s y. f sp body v s = Some y \<Longrightarrow> ?Q sp body v s y"
      and eq: "(if v \<le> CUBE_SIZE / 2 then Option.bind (body v s) (f sp body (v + sp))
                else Some s) = Some s'"
    show "?Q sp body v s s'"
    proof (intro impI)
      assume st: "\<forall>v s s'. P s \<longrightarrow> body v s = Some s' \<longrightarrow> P s'" and P: "P s"
      show "P s'"
      proof (cases "v \<le> CUBE_SIZE / 2")
        case False
        with eq P show ?thesis by simp
      next
        case True
        with eq obtain s1 where s1: "body v s = Some s1" "f sp body (v + sp) s1 = Some s'"
          by (cases "body v s") auto
        from st P s1(1) have "P s1" by blast
        with IH [OF s1(2)] st show ?thesis by blast
      qed
    qed
  qed
  with start step show ?thesis by blast
qed

lemma sweep_total:
  assumes sp: "0 < sp" and body: "\<And>v s. \<exists>s'. body v s = Some s'"
  shows "\<exists>s'. sweep sp body v s = Some s'"
proof (induction "nat \<lceil>(CUBE_SIZE / 2 - v) / sp\<rceil>" arbitrary: v s rule: less_induct)
  case less
  show ?case
  proof (cases "v \<le> CUBE_SIZE / 2")
    case False
    then show ?thesis by (subst sweep.simps) simp
  next
    case True
    obtain s1 where s1: "body v s = Some s1" using body by blast
    show ?thesis
    proof (cases "v + sp \<le> CUBE_SIZE / 2")
      case False
      then have "sweep sp body (v + sp) s1 = Some s1" by (subst sweep.simps) simp
      with True s1 show ?thesis by (subst sweep.simps) simp
    next
      case le: True
      have "(CUBE_SIZE / 2 - (v + sp)) / sp = (CUBE_SIZE / 2 - v) / sp - 1"
        using sp by (simp add: field_simps)
      then have c: "\<lceil>(CUBE_SIZE / 2 - (v + sp)) / sp\<rceil> = \<lceil>(CUBE_SIZE / 2 - v) / sp\<rceil> - 1"
        by simp
      have "0 < (CUBE_SIZE / 2 - v) / sp" using le sp by simp
      then have "0 < \<lceil>(CUBE_SIZE / 2 - v) / sp\<rceil>" by simp
      with c have "nat \<lceil>(CUBE_SIZE / 2 - (v + sp)) / sp\<rceil> < nat \<lceil>(CUBE_SIZE / 2 - v) / sp\<rceil>"
        by simp
      then obtain s' where "sweep sp body (v + sp) s1 = Some s'"
        using less by blast
      with True s1 show ?thesis by (subst sweep.simps) simp
    qed
  qed
qed

lemma sweep_diverges:
  assumes sp: "sp \<le> 0" and v: "v \<le> CUBE_SIZE / 2"
  shows "sweep sp body v s = None"
proof (rule ccontr)
  assume "sweep sp body v s \<noteq> None"
  then obtain s' where run: "sweep sp body v s = Some s'" by auto
  let ?Q = "\<lambda>(sp::real) (body :: real \<Rightarrow> 'a \<Rightarrow> 'a option) (v::real) (s::'a) (s'::'a).
              sp \<le> 0 \<longrightarrow> \<not> v \<le> CUBE_SIZE / 2"
  have "?Q sp body v s s'"
  proof (rule sweep.raw_induct [where P = ?Q, OF _ run])
    fix f sp and body :: "real \<Rightarrow> 'a \<Rightarrow> 'a option" and v s s'
    assume IH: "\<And>sp body v s y. f sp body v s = Some y \<Longrightarrow> ?Q sp body v s y"
      and eq: "(if v \<le> CUBE_SIZE / 2 then Option.bind (body v s) (f sp body (v + sp))
                else Some s) = Some s'"
    show "?Q sp body v s s'"
    proof (intro impI notI)
      assume sp: "sp \<le> 0" and le: "v \<le> CUBE_SIZE / 2"
      with eq obtain s1 where "f sp body (v + sp) s1 = Some s'"
        by (cases "body v s") auto
      from IH [OF this] sp have "\<not> v + sp \<le> CUBE_SIZE / 2" by blast
      with le sp show False by simp
    qed
  qed
  with sp v show False by simp
qed

lemma two_writes_frame_step:
  assumes "Option.bind (updateBuffers g i j k t b c1 l1)
             (\<lambda>b'. updateBuffers g i' j' k' t b' c2 l2) = Some b''"
  shows "frame_step b b''"
proof -
  from assms obtain b' where "updateBuffers g i j k t b c1 l1 = Some b'"
    "updateBuffers g i' j' k' t b' c2 l2 = Some b''"
    by (cases "updateBuffers g i j k t b c1 l1") auto
  then have "frame_step b b'" "frame_step b' b''"
    by (auto dest: updateBuffers_frame_step)
  then show ?thesis by (rule frame_step_trans)
qed

lemma point_A_frame_step: "point_A g t c1 c2 lf lb k i j b = Some b' \<Longrightarrow> frame_step b b'"
  unfolding point_A_def by (auto split: prod.splits dest: two_writes_frame_step)

lemma point_B_frame_step: "point_B g t c1 c2 lf lb i j k b = Some b' \<Longrightarrow> frame_step b b'"
  unfolding point_B_def by (auto split: prod.splits dest: two_writes_frame_step)

lemma point_C_frame_step: "point_C g t c1 c2 lf lb j k i b = Some b' \<Longrightarrow> frame_step b b'"
  unfolding point_C_def by (auto split: prod.splits dest: two_writes_frame_step)

lemma sweep_frame_step:
  assumes "sweep sp body v b = Some b'"
    and "\<And>v b b'. body v b = Some b' \<Longrightarrow> frame_step b b'"
  shows "frame_step b b'"
  using assms(1) frame_step_refl
proof (rule sweep_invariant [where P = "frame_step b"])
  fix v s s' assume "frame_step b s" "body v s = Some s'"
  then show "frame_step b s'" using assms(2) frame_step_trans by blast
qed

lemma renderCubeAxis_A_frame_step:
  "renderCubeAxis_A g t b c1 c2 = Some b' \<Longrightarrow> frame_step b b'"
  unfolding renderCubeAxis_A_def Let_def
  by (erule sweep_frame_step) (erule sweep_frame_step, erule point_A_frame_step)

lemma renderCubeAxis_B_frame_step:
  "renderCubeAxis_B g t b c1 c2 = Some b' \<Longrightarrow> frame_step b b'"
  unfolding renderCubeAxis_B_def Let_def
  by (erule sweep_frame_step) (erule sweep_frame_step, erule point_B_frame_step)

lemma renderCubeAxis_C_frame_step:
  "renderCubeAxis_C g t b c1 c2 = Some b' \<Longrightarrow> frame_step b b'"
  unfolding renderCubeAxis_C_def Let_def
  by (erule sweep_frame_step) (erule sweep_frame_step, erule point_C_frame_step)

lemma populate_frame_step:
  assumes "populate g t b = Some b'"
  shows "frame_step b b'"
proof -
  from assms obtain b1 b2 where
    "renderCubeAxis_A g t b YELLOW WHITE = Some b1"
    "renderCubeAxis_B g t b1 GREEN BLUE = Some b2"
    "renderCubeAxis_C g t b2 BOLD_RED RED = Some b'"
    unfolding populate_def
    by (cases "renderCubeAxis_A g t b YELLOW WHITE";
        cases "renderCubeAxis_B g t (the (renderCubeAxis_A g t b YELLOW WHITE)) GREEN BLUE") auto
  then have "frame_step b b1" "frame_step b1 b2" "frame_step b2 b'"
    by (auto dest: renderCubeAxis_A_frame_step renderCubeAxis_B_frame_step
        renderCubeAxis_C_frame_step)
  then show ?thesis by (blast intro: frame_step_trans)
qed

lemma renderFrame_Some:
  assumes "renderFrame g t sc = Some (sc', out)"
  obtains b3 where
    "populate g t \<lparr>buffer = fill (buffer (cur sc)) CHR '' '',
                    zbuffer = fill (zbuffer (cur sc)) 0,
                    cbuffer = fill (cbuffer (cur sc)) RESET\<rparr> = Some b3"
    "sc' = \<lparr>cur = b3, buffer_prev = buffer (cur sc), cbuffer_prev = cbuffer (cur sc)\<rparr>"
    "out = SetCursorHome
             # diffEmit (WIDTH g) (buffer b3) (buffer (cur sc)) (cbuffer b3) (cbuffer (cur sc)) 0"
  using assms unfolding renderFrame_def Let_def
  by (auto split: option.splits)

lemma diffEmit_same: "diffEmit W buf buf cbuf cbuf index = []"
proof (induction "length buf - index" arbitrary: index)
  case 0
  then show ?case by (subst diffEmit.simps) simp
next
  case (Suc n)
  then have "diffEmit W buf buf cbuf cbuf (Suc index) = []" by simp
  then show ?case by (subst diffEmit.simps) simp
qed

lemma fill_same_length: "length xs = length ys \<Longrightarrow> fill xs v = fill ys v"
  by (simp add: fill_def)

lemma diffEmit_from:
  "diffEmit W buf prev cbuf cprev index =
     map (emit W buf cbuf) (filter (changed buf prev cbuf cprev) [index..<length buf])"
proof (induction "length buf - index" arbitrary: index)
  case 0
  then show ?case by (subst diffEmit.simps) simp
next
  case (Suc n)
  then have IH: "diffEmit W buf prev cbuf cprev (Suc index) =
     map (emit W buf cbuf) (filter (changed buf prev cbuf cprev) [Suc index..<length buf])"
    by simp
  from Suc(2) have lt: "index < length buf" by simp
  then have u: "[index..<length buf] = index # [Suc index..<length buf]"
    by (simp add: upt_rec)
  show ?case
    by (subst diffEmit.simps) (simp add: lt u IH emit_def changed_def Let_def)
qed

lemma filter_single:
  assumes "n < m" "\<And>i. i < m \<Longrightarrow> P i \<longleftrightarrow> i = n"
  shows "filter P [0..<m] = [n]"
proof -
  have "filter P [0..<m] = filter (\<lambda>i. i = n) [0..<m]"
    using assms(2) by (intro filter_cong) auto
  also have "\<dots> = [n]"
  proof -
    have "[0..<m] = [0..<n] @ n # [Suc n..<m]"
      using assms(1) upt_conv_Cons [of n m] upt_add_eq_append [of 0 n "m - n"] by simp
    then show ?thesis by (simp add: filter_empty_conv)
  qed
  finally show ?thesis .
qed



lemma in_band_iff:
  "in_band v \<longleftrightarrow>
     (v > (- CUBE_SIZE / 2 + CUBE_SIZE / 3) - GRID_SPACING \<and>
      v < (- CUBE_SIZE / 2 + CUBE_SIZE / 3) + GRID_SPACING) \<or>
     (v > (CUBE_SIZE / 2 - CUBE_SIZE / 3) - GRID_SPACING \<and>
      v < (CUBE_SIZE / 2 - CUBE_SIZE / 3) + GRID_SPACING)"
proof -
  have "- CUBE_SIZE / 2 + 2 * CUBE_SIZE / 3 = CUBE_SIZE / 2 - CUBE_SIZE / 3" by simp
  then show ?thesis
    unfolding in_band_def abs_less_iff by (simp only:) linarith
qed

lemma gridColors_in_band:
  "gridColors a b color1 color2 =
     (if in_band a \<or> in_band b then (GRID_LINE_COLOR, GRID_LINE_COLOR) else (color1, color2))"
  by (simp add: gridColors_def in_band_iff)

lemma gridColors_band:
  assumes "in_band a \<or> in_band b"
  shows "gridColors a b color1 color2 = (GRID_LINE_COLOR, GRID_LINE_COLOR)"
  using assms by (simp add: gridColors_in_band)

lemma updateDim_K1:
  assumes "updateDim d g sc = Some (g', sc', out)" "w d \<noteq> 0" "h d \<noteq> 0"
  shows "WIDTH g' = w d \<and> HEIGHT g' = h d
         \<and> K1 g' = (real_of_int (WIDTH g') * K2 * 3) / (8 * (sqrt 3 * CUBE_SIZE))
         \<and> SPACING g' = 3 / real_of_int (WIDTH g')"
  using assms unfolding updateDim_def Let_def
  by (auto split: option.splits)

lemma resize_fill: "fill (resize n d xs) v = replicate n v"
  by (simp add: fill_def resize_def)

lemma updateDim_positive:
  assumes "0 < w d" "0 < h d" "w d * h d \<le> INT_MAX"
  shows "updateDim d g sc =
     Some (g\<lparr>WIDTH := w d, HEIGHT := h d,
              K1 := (real_of_int (w d) * K2 * 3) / (8 * (sqrt 3 * CUBE_SIZE)),
              SPACING := 3 / real_of_int (w d)\<rparr>,
           \<lparr>cur = \<lparr>buffer = replicate (nat (w d * h d)) CHR '' '',
                   zbuffer = replicate (nat (w d * h d)) 0,
                   cbuffer = replicate (nat (w d * h d)) RESET\<rparr>,
            buffer_prev = replicate (nat (w d * h d)) CHR '' '',
            cbuffer_prev = replicate (nat (w d * h d)) RESET\<rparr>,
           [EraseScreen])"
proof -
  have "0 < w d * h d" using assms(1,2) by simp
  then have "in_int (w d * h d) = Some (w d * h d)" "\<not> w d * h d < 0"
    using assms(3) by (simp_all add: in_int_def INT_MIN_def)
  then show ?thesis
    using assms(1,2)
    by (simp add: updateDim_def resizeBuffers_def clearBuffers_def resize_fill Let_def)
qed

lemma diffEmit_blank_prev:
  assumes "length buf = n"
  shows "diffEmit W buf (replicate n CHR '' '') cbuf (replicate n RESET) 0 =
     map (emit W buf cbuf)
       (filter (\<lambda>i. \<not> (buf ! i = CHR '' '' \<and> cbuf ! i = RESET)) [0..<n])"
proof -
  have "filter (changed buf (replicate n CHR '' '') cbuf (replicate n RESET)) [0..<n]
          = filter (\<lambda>i. \<not> (buf ! i = CHR '' '' \<and> cbuf ! i = RESET)) [0..<n]"
    by (intro filter_cong) (auto simp: changed_def)
  then show ?thesis
    using assms by (simp add: diffEmit_from)
qed

lemma renderFrame_again:
  assumes "renderFrame g t sc = Some (sc1, out1)"
  shows "renderFrame g t sc1
           = Some (sc1\<lparr>buffer_prev := buffer (cur sc1), cbuffer_prev := cbuffer (cur sc1)\<rparr>,
                   [SetCursorHome])"
proof -
  let ?b0 = "\<lparr>buffer = fill (buffer (cur sc)) CHR '' '', zbuffer = fill (zbuffer (cur sc)) 0,
              cbuffer = fill (cbuffer (cur sc)) RESET\<rparr>"
  from assms obtain b3 where
    p: "populate g t ?b0 = Some b3"
    and sc1: "sc1 = \<lparr>cur = b3, buffer_prev = buffer (cur sc), cbuffer_prev = cbuffer (cur sc)\<rparr>"
    by (rule renderFrame_Some)
  from p have "same_size ?b0 b3"
    using populate_frame_step by (auto simp: frame_step_def)
  then have len: "length (buffer b3) = length (buffer (cur sc))"
    "length (zbuffer b3) = length (zbuffer (cur sc))"
    "length (cbuffer b3) = length (cbuffer (cur sc))"
    by (simp_all add: same_size_def fill_def)
  have "\<lparr>buffer = fill (buffer (cur sc1)) CHR '' '', zbuffer = fill (zbuffer (cur sc1)) 0,
         cbuffer = fill (cbuffer (cur sc1)) RESET\<rparr> = ?b0"
    using len by (simp add: sc1 fill_def)
  then show ?thesis
    unfolding renderFrame_def Let_def
    by (simp add: p diffEmit_same sc1)
qed

section \<open>Concrete evaluations\<close>

text \<open>The initial globals, the trig cache of the angles \<open>0, 0, 0\<close> (the identity rotation)
  and points on the axis through the screen centre: they project to column 25 of row 12,
  cell 625.\<close>

lemma sqrt3_lower: "1732 / 1000 < sqrt 3"
  by (rule real_less_rsqrt) (simp add: power2_eq_square)

lemma sqrt3_upper: "sqrt 3 < 17321 / 10000"
  by (rule real_less_lsqrt) (simp_all add: power2_eq_square)

lemma sqrt2_lower: "1414 / 1000 < sqrt 2"
  by (rule real_less_rsqrt) (simp add: power2_eq_square)

lemma sqrt2_upper: "sqrt 2 < 1415 / 1000"
  by (rule real_less_lsqrt) (simp_all add: power2_eq_square)

lemma K1_initial: "K1 initial_globals = 125 / 2 * sqrt 3"
proof -
  have "sqrt 3 * sqrt 3 = 3" by simp
  then show ?thesis
    by (simp add: initial_globals_def K2_def CUBE_SIZE_def field_simps)
qed

lemma initial_dims: "WIDTH initial_globals = 50" "HEIGHT initial_globals = 25"
  by (simp_all add: initial_globals_def)

lemma project_above:
  "project initial_globals (trigValues 0 0 0) 100 0 0 = Some (- 53475, 1 / 10)"
proof -
  have c: "\<lceil>12 - 625 * sqrt 3\<rceil> = - 1070"
    using sqrt3_lower sqrt3_upper by (intro ceiling_unique) auto
  have neg: "\<not> 0 \<le> 12 - 625 * sqrt 3" using sqrt3_lower by auto
  show ?thesis
    using c neg
    by (simp add: project_def rotate_def trigValues_def K1_initial K2_def initial_dims
      static_cast_int_def in_int_def INT_MIN_def INT_MAX_def)
qed

lemma project_center:
  "k + 10 \<noteq> 0 \<Longrightarrow>
   project initial_globals (trigValues 0 0 0) 0 0 k = Some (625, 1 / (k + 10))"
  by (simp add: project_def rotate_def trigValues_def initial_globals_def K2_def
      static_cast_int_def in_int_def INT_MIN_def INT_MAX_def)

lemma initial_bufs_ok: "bufs_ok initial_bufs"
  by (simp add: bufs_ok_def initial_bufs_def)

lemma cast_half: "static_cast_int (1 / 2 * 11) = Some 5"
  by (simp add: static_cast_int_def in_int_def INT_MIN_def INT_MAX_def)

lemma cast_zero: "static_cast_int (0 * 11) = Some 0"
  by (simp add: static_cast_int_def in_int_def INT_MIN_def INT_MAX_def)

lemma glyph_half: "glyph (1 / 2) 5 = Some CHR '';''"
  by (simp add: glyph_def literal_at_def ramp_literal_def ramp_def)

lemma glyph_zero: "glyph 0 0 = Some CHR ''.''"
  by (simp add: glyph_def literal_at_def ramp_literal_def ramp_def)

lemma main_light: "rotatedLightSource main_globals = \<lparr>vx = 0, vy = 1 / sqrt 2, vz = - 1 / sqrt 2\<rparr>"
  by (simp add: main_globals_def normVector_def getVectorMag_def rotate_def trigValues_def
      lightSource_def Let_def)

lemma main_globals_eq:
  "main_globals =
     \<lparr>WIDTH = 50, HEIGHT = 25,
      K1 = (real_of_int 50 * K2 * 3) / (8 * (sqrt 3 * CUBE_SIZE)),
      SPACING = 3 / real_of_int 50,
      rotatedLightSource = \<lparr>vx = 0, vy = 1 / sqrt 2, vz = - 1 / sqrt 2\<rparr>\<rparr>"
  using main_light by (simp add: main_globals_def initial_globals_def)

lemma updateDim_small:
  "updateDim \<lparr>w = 2, h = 2\<rparr> main_globals initial_screen = Some (small_globals, blank_screen 4, [EraseScreen])"
  by (simp add: updateDim_def resizeBuffers_def clearBuffers_def in_int_def INT_MIN_def INT_MAX_def
      small_globals_def blank_screen_def blank_def fill_def resize_def initial_screen_def
      initial_bufs_def main_globals_eq Let_def)

lemma rotate_t0: "rotate t0 a b c = \<lparr>vx = a, vy = b, vz = c\<rparr>"
  by (simp add: rotate_def trigValues_def)

lemma normVector_unit:
  "a * a + b * b + c * c = 1 \<Longrightarrow> normVector \<lparr>vx = a, vy = b, vz = c\<rparr> = \<lparr>vx = a, vy = b, vz = c\<rparr>"
  by (simp add: normVector_def getVectorMag_def)

lemma small_globals_fields:
  "WIDTH small_globals = 2" "HEIGHT small_globals = 2" "SPACING small_globals = 3 / 2" "K1 small_globals = 5 / 2 * sqrt 3"
  "rotatedLightSource small_globals = \<lparr>vx = 0, vy = 1 / sqrt 2, vz = - 1 / sqrt 2\<rparr>"
proof -
  have "sqrt 3 * sqrt 3 = 3" by simp
  then show "K1 small_globals = 5 / 2 * sqrt 3"
    by (simp add: small_globals_def K2_def CUBE_SIZE_def field_simps)
qed (simp_all add: small_globals_def)

lemma lum_small:
  "faceLuminance small_globals t0 \<lparr>vx = 0, vy = 0, vz = CUBE_SIZE\<rparr> = - (1 / sqrt 2)"
  "faceLuminance small_globals t0 \<lparr>vx = 0, vy = 0, vz = - CUBE_SIZE\<rparr> = 1 / sqrt 2"
  "faceLuminance small_globals t0 \<lparr>vx = 0, vy = CUBE_SIZE, vz = 0\<rparr> = 1 / sqrt 2"
  "faceLuminance small_globals t0 \<lparr>vx = 0, vy = - CUBE_SIZE, vz = 0\<rparr> = - (1 / sqrt 2)"
  "faceLuminance small_globals t0 \<lparr>vx = CUBE_SIZE, vy = 0, vz = 0\<rparr> = 0"
  "faceLuminance small_globals t0 \<lparr>vx = - CUBE_SIZE, vy = 0, vz = 0\<rparr> = 0"
  by (simp_all add: faceLuminance_def rotate_t0 normVector_unit CUBE_SIZE_def small_globals_fields)

lemma eleven_over_sqrt2: "7 < 11 / sqrt 2" "11 / sqrt 2 < 8"
  using sqrt2_lower sqrt2_upper by (simp_all add: field_simps)

lemma cast_lum:
  "static_cast_int (1 / sqrt 2 * 11) = Some 7"
  "static_cast_int (- (1 / sqrt 2) * 11) = Some (- 7)"
proof -
  have f: "\<lfloor>11 / sqrt 2\<rfloor> = 7"
    using eleven_over_sqrt2 by (intro floor_unique) auto
  have c: "\<lceil>- (11 / sqrt 2)\<rceil> = - 7"
    using eleven_over_sqrt2 by (intro ceiling_unique) auto
  show "static_cast_int (1 / sqrt 2 * 11) = Some 7"
    using f by (simp add: static_cast_int_def in_int_def INT_MIN_def INT_MAX_def)
  show "static_cast_int (- (1 / sqrt 2) * 11) = Some (- 7)"
    using c by (simp add: static_cast_int_def in_int_def INT_MIN_def INT_MAX_def)
qed

lemma glyph_lum:
  "glyph (1 / sqrt 2) 7 = Some CHR ''!''"
  "glyph (- (1 / sqrt 2)) (- 7) = Some CHR ''.''"
  by (simp_all add: glyph_def literal_at_def ramp_literal_def ramp_def)

lemma corner_offset:
  "0 < 5 / 2 * sqrt 3 * (2 / 19) * (1 / 2)" "5 / 2 * sqrt 3 * (2 / 19) * (1 / 2) < 1"
  "0 < 5 / 2 * sqrt 3 * (2 / 21) * (1 / 2)" "5 / 2 * sqrt 3 * (2 / 21) * (1 / 2) < 1"
  using sqrt3_lower sqrt3_upper by simp_all

lemma project_eval:
  assumes "rotate t j i k = \<lparr>vx = x, vy = y, vz = z0\<rparr>"
    and "z0 + K2 \<noteq> 0" and "ooz = 1 / (z0 + K2)"
    and "static_cast_int (real_of_int (WIDTH g div 2) + K1 g * ooz * x) = Some xp"
    and "static_cast_int (real_of_int (HEIGHT g div 2) - K1 g * ooz * y) = Some yp"
    and "in_int (yp * WIDTH g) = Some m"
    and "in_int (xp + m) = Some index"
  shows "project g t i j k = Some (index, ooz)"
  using assms by (simp add: project_def Let_def)

lemma static_cast_int_floor:
  assumes "real_of_int n \<le> r" "r < real_of_int n + 1" "0 \<le> n" "n \<le> INT_MAX"
  shows "static_cast_int r = Some n"
proof -
  have "\<lfloor>r\<rfloor> = n" using assms(1,2) by (intro floor_unique) auto
  moreover have "0 \<le> r" using assms(1,3) by linarith
  ultimately show ?thesis
    using assms(3,4) by (simp add: static_cast_int_def in_int_def INT_MIN_def)
qed

lemma project_small:
  assumes i: "i = 1 / 2 \<or> i = - 1 / 2" and j: "j = 1 / 2 \<or> j = - 1 / 2"
    and k: "k = 1 / 2 \<or> k = - 1 / 2"
  shows "project small_globals t0 i j k =
           Some ((if j < 0 then 0 else 1) + (if i < 0 then 1 else 0) * 2, 1 / (k + 10))"
proof -
  define ooz where "ooz = 1 / (k + K2)"
  define a where "a = K1 small_globals * ooz * (1 / 2)"
  have a: "0 < a \<and> a < 1"
    using k
  proof
    assume k: "k = 1 / 2"
    have e: "a = 5 / 2 * sqrt 3 * (2 / 21) * (1 / 2)"
      unfolding a_def ooz_def k small_globals_fields K2_def by simp
    show ?thesis unfolding e using corner_offset(3,4) by (rule conjI)
  next
    assume k: "k = - 1 / 2"
    have e: "a = 5 / 2 * sqrt 3 * (2 / 19) * (1 / 2)"
      unfolding a_def ooz_def k small_globals_fields K2_def by simp
    show ?thesis unfolding e using corner_offset(1,2) by (rule conjI)
  qed
  have z: "k + K2 \<noteq> 0" using k by (elim disjE; (hypsubst, simp add: K2_def))
  have xj: "K1 small_globals * ooz * j = (if j < 0 then - a else a)"
    using j by (elim disjE; (hypsubst, simp add: a_def))
  have yi: "K1 small_globals * ooz * i = (if i < 0 then - a else a)"
    using i by (elim disjE; (hypsubst, simp add: a_def))
  have xp: "static_cast_int (real_of_int (WIDTH small_globals div 2) + K1 small_globals * ooz * j)
              = Some (if j < 0 then 0 else 1)"
    unfolding xj small_globals_fields(1) using a
    by (auto intro!: static_cast_int_floor simp: INT_MAX_def)
  have yp: "static_cast_int (real_of_int (HEIGHT small_globals div 2) - K1 small_globals * ooz * i)
              = Some (if i < 0 then 1 else 0)"
    unfolding yi small_globals_fields(2) using a
    by (auto intro!: static_cast_int_floor simp: INT_MAX_def)
  have m: "in_int ((if i < 0 then 1 else 0) * WIDTH small_globals) = Some ((if i < 0 then 1 else 0) * 2)"
    by (simp add: in_int_def INT_MIN_def INT_MAX_def small_globals_fields)
  have ix: "in_int ((if j < 0 then 0 else 1) + (if i < 0 then 1 else 0) * 2)
              = Some ((if j < 0 then 0 else 1) + (if i < 0 then 1 else 0) * 2)"
    by (simp add: in_int_def INT_MIN_def INT_MAX_def)
  have "project small_globals t0 i j k
          = Some ((if j < 0 then 0 else 1) + (if i < 0 then 1 else 0) * 2, ooz)"
    using rotate_t0 z ooz_def xp yp m ix by (rule project_eval)
  then show ?thesis by (simp add: ooz_def K2_def)
qed

lemma sweep_single:
  assumes "v \<le> CUBE_SIZE / 2" "\<not> v + sp \<le> CUBE_SIZE / 2"
  shows "sweep sp body v s = body v s"
proof -
  have "sweep sp body (v + sp) = Some"
    using assms(2) by (intro ext, subst sweep.simps) simp
  with assms(1) show ?thesis by (subst sweep.simps) simp
qed

lemma sweep_corner: "sweep (3 / 2) body (- CUBE_SIZE / 2) s = body (- CUBE_SIZE / 2) s"
  by (rule sweep_single) (simp_all add: CUBE_SIZE_def)

lemma gridColors_corner: "gridColors (- CUBE_SIZE / 2) (- CUBE_SIZE / 2) c1 c2 = (c1, c2)"
  by (simp add: gridColors_def CUBE_SIZE_def GRID_SPACING_def)

lemma blank_4:
  "blank 4 = \<lparr>buffer = [CHR '' '', CHR '' '', CHR '' '', CHR '' ''], zbuffer = [0, 0, 0, 0],
              cbuffer = [RESET, RESET, RESET, RESET]\<rparr>"
  by (simp add: blank_def numeral_eq_Suc)

lemma updateBuffers_small:
  assumes i: "i = 1 / 2 \<or> i = - 1 / 2" and j: "j = 1 / 2 \<or> j = - 1 / 2"
    and k: "k = 1 / 2 \<or> k = - 1 / 2"
    and l: "static_cast_int (luminance * 11) = Some li" "glyph luminance li = Some c"
    and n: "n = (if j < 0 then 0 else 1) + (if i < 0 then 2 else 0)" "n < length (buffer b)"
  shows "updateBuffers small_globals i j k t0 b color luminance =
           (if zbuffer b ! n < 1 / (k + 10)
            then Some (b\<lparr>zbuffer := (zbuffer b)[n := 1 / (k + 10)],
                          cbuffer := (cbuffer b)[n := color],
                          buffer := (buffer b)[n := c]\<rparr>)
            else Some b)"
proof -
  have "nat ((if j < 0 then 0 else 1) + (if i < 0 then 1 else 0) * 2) = n"
    using n(1) by simp
  then show ?thesis
    using n(2) l(2)
    by (simp add: updateBuffers_eq [OF project_small [OF i j k] l(1)])
qed

lemma renderCubeAxis_A_small: "renderCubeAxis_A small_globals t0 (blank 4) YELLOW WHITE = Some frame_A"
proof -
  have 1: "updateBuffers small_globals (- (1 / 2)) (- (1 / 2)) (1 / 2) t0 (blank 4) YELLOW (- (1 / sqrt 2))
             = Some \<lparr>buffer = [CHR '' '', CHR '' '', CHR ''.'', CHR '' ''],
                     zbuffer = [0, 0, 2 / 21, 0], cbuffer = [RESET, RESET, YELLOW, RESET]\<rparr>"
    by (subst updateBuffers_small [OF _ _ _ cast_lum(2) glyph_lum(2), where n = 2])
       (simp_all add: blank_4)
  have 2: "updateBuffers small_globals (- (1 / 2)) (- (1 / 2)) (- (1 / 2)) t0
             \<lparr>buffer = [CHR '' '', CHR '' '', CHR ''.'', CHR '' ''],
                     zbuffer = [0, 0, 2 / 21, 0], cbuffer = [RESET, RESET, YELLOW, RESET]\<rparr>
             WHITE (1 / sqrt 2) = Some frame_A"
    by (subst updateBuffers_small [OF _ _ _ cast_lum(1) glyph_lum(1), where n = 2])
       (simp_all add: frame_A_def)
  show ?thesis
    unfolding renderCubeAxis_A_def Let_def lum_small small_globals_fields sweep_corner point_A_def
      gridColors_corner
    using 1 2 by (simp add: CUBE_SIZE_def)
qed

lemma renderCubeAxis_B_small: "renderCubeAxis_B small_globals t0 frame_A GREEN BLUE = Some frame_B"
proof -
  have 1: "updateBuffers small_globals (1 / 2) (- (1 / 2)) (- (1 / 2)) t0 frame_A GREEN (1 / sqrt 2)
             = Some frame_B"
    by (subst updateBuffers_small [OF _ _ _ cast_lum(1) glyph_lum(1), where n = 0])
       (simp_all add: frame_A_def frame_B_def)
  have 2: "updateBuffers small_globals (- (1 / 2)) (- (1 / 2)) (- (1 / 2)) t0 frame_B BLUE (- (1 / sqrt 2))
             = Some frame_B"
    by (subst updateBuffers_small [OF _ _ _ cast_lum(2) glyph_lum(2), where n = 2])
       (simp_all add: frame_B_def)
  show ?thesis
    unfolding renderCubeAxis_B_def Let_def lum_small small_globals_fields sweep_corner point_B_def
      gridColors_corner
    using 1 2 by (simp add: CUBE_SIZE_def)
qed

lemma renderCubeAxis_C_small: "renderCubeAxis_C small_globals t0 frame_B BOLD_RED RED = Some frame_C"
proof -
  have c: "static_cast_int (0 * 11) = Some 0" by (rule cast_zero)
  have 1: "updateBuffers small_globals (- (1 / 2)) (1 / 2) (- (1 / 2)) t0 frame_B BOLD_RED 0
             = Some frame_C"
    by (subst updateBuffers_small [OF _ _ _ c glyph_zero, where n = 3])
       (simp_all add: frame_B_def frame_C_def)
  have 2: "updateBuffers small_globals (- (1 / 2)) (- (1 / 2)) (- (1 / 2)) t0 frame_C RED 0
             = Some frame_C"
    by (subst updateBuffers_small [OF _ _ _ c glyph_zero, where n = 2])
       (simp_all add: frame_C_def)
  show ?thesis
    unfolding renderCubeAxis_C_def Let_def lum_small small_globals_fields sweep_corner point_C_def
      gridColors_corner
    using 1 2 by (simp add: CUBE_SIZE_def)
qed

lemma populate_small: "populate small_globals t0 (blank 4) = Some frame_C"
  by (simp add: populate_def renderCubeAxis_A_small renderCubeAxis_B_small renderCubeAxis_C_small)

lemma renderFrame_small:
  "renderFrame small_globals t0 (blank_screen 4) =
     Some (\<lparr>cur = frame_C, buffer_prev = replicate 4 CHR '' '', cbuffer_prev = replicate 4 RESET\<rparr>,
           [SetCursorHome, PutCell 1 1 GREEN CHR ''!'', PutCell 2 1 WHITE CHR ''!'',
            PutCell 2 2 BOLD_RED CHR ''.''])"
proof -
  have b0: "\<lparr>buffer = fill (buffer (cur (blank_screen 4))) CHR '' '',
             zbuffer = fill (zbuffer (cur (blank_screen 4))) 0,
             cbuffer = fill (cbuffer (cur (blank_screen 4))) RESET\<rparr> = blank 4"
    by (simp add: blank_screen_def blank_def fill_def)
  have d: "diffEmit 2 (buffer frame_C) (replicate 4 CHR '' '') (cbuffer frame_C) (replicate 4 RESET) 0
             = [PutCell 1 1 GREEN CHR ''!'', PutCell 2 1 WHITE CHR ''!'',
                PutCell 2 2 BOLD_RED CHR ''.'']"
    by (simp add: diffEmit.simps frame_C_def numeral_eq_Suc color_defs)
  show ?thesis
    unfolding renderFrame_def Let_def b0 populate_small
    using d by (simp add: small_globals_fields blank_screen_def blank_def)
qed



lemma main_light_unit: "getVectorMag (rotatedLightSource main_globals) = 1"
  by (simp add: main_light getVectorMag_def Let_def field_simps)

section \<open>A frame is always rendered\<close>

text \<open>For a positive \<open>SPACING\<close> the sweeps end; for well-formed globals and a trig cache of
  sines and cosines every point of the cube has a defined projection, so \<open>renderFrame\<close>
  returns.\<close>

lemma sweep_total_range:
  assumes sp: "0 < sp" and v: "- CUBE_SIZE / 2 \<le> v"
    and body: "\<And>v s. - CUBE_SIZE / 2 \<le> v \<Longrightarrow> v \<le> CUBE_SIZE / 2 \<Longrightarrow> \<exists>s'. body v s = Some s'"
  shows "\<exists>s'. sweep sp body v s = Some s'"
  using v
proof (induction "nat \<lceil>(CUBE_SIZE / 2 - v) / sp\<rceil>" arbitrary: v s rule: less_induct)
  case less
  show ?case
  proof (cases "v \<le> CUBE_SIZE / 2")
    case False
    then show ?thesis by (subst sweep.simps) simp
  next
    case True
    obtain s1 where s1: "body v s = Some s1" using body less.prems True by blast
    show ?thesis
    proof (cases "v + sp \<le> CUBE_SIZE / 2")
      case False
      then have "sweep sp body (v + sp) s1 = Some s1" by (subst sweep.simps) simp
      with True s1 show ?thesis by (subst sweep.simps) simp
    next
      case le: True
      have "(CUBE_SIZE / 2 - (v + sp)) / sp = (CUBE_SIZE / 2 - v) / sp - 1"
        using sp by (simp add: field_simps)
      then have c: "\<lceil>(CUBE_SIZE / 2 - (v + sp)) / sp\<rceil> = \<lceil>(CUBE_SIZE / 2 - v) / sp\<rceil> - 1"
        by simp
      have "0 < (CUBE_SIZE / 2 - v) / sp" using le sp by simp
      then have "0 < \<lceil>(CUBE_SIZE / 2 - v) / sp\<rceil>" by simp
      with c have "nat \<lceil>(CUBE_SIZE / 2 - (v + sp)) / sp\<rceil> < nat \<lceil>(CUBE_SIZE / 2 - v) / sp\<rceil>"
        by simp
      moreover have "- CUBE_SIZE / 2 \<le> v + sp" using less.prems sp by simp
      ultimately obtain s' where "sweep sp body (v + sp) s1 = Some s'"
        using less.hyps by blast
      with True s1 show ?thesis by (subst sweep.simps) simp
    qed
  qed
qed

lemma rotate_bound:
  assumes t: "unit_trig t" and a: "\<bar>a\<bar> \<le> 1 / 2" and b: "\<bar>b\<bar> \<le> 1 / 2" and c: "\<bar>c\<bar> \<le> 1 / 2"
  shows "\<bar>vx (rotate t a b c)\<bar> < 1" "\<bar>vy (rotate t a b c)\<bar> < 1" "\<bar>vz (rotate t a b c)\<bar> < 1"
proof -
  have sq: "x\<^sup>2 \<le> 1 / 4" if "\<bar>x\<bar> \<le> 1 / 2" for x :: real
  proof -
    from that have "\<bar>x\<bar>\<^sup>2 \<le> (1 / 2)\<^sup>2" by (intro power_mono) auto
    then show ?thesis by (simp add: power2_eq_square)
  qed
  have n: "(vx (rotate t a b c))\<^sup>2 + (vy (rotate t a b c))\<^sup>2 + (vz (rotate t a b c))\<^sup>2
             = a\<^sup>2 + b\<^sup>2 + c\<^sup>2"
    using t by (intro rotate_norm) (simp_all add: unit_trig_def)
  have "a\<^sup>2 + b\<^sup>2 + c\<^sup>2 \<le> 3 / 4" using sq [OF a] sq [OF b] sq [OF c] by simp
  with n have s: "(vx (rotate t a b c))\<^sup>2 + (vy (rotate t a b c))\<^sup>2 + (vz (rotate t a b c))\<^sup>2 < 1"
    by simp
  have lt: "\<bar>x\<bar> < 1" if "x\<^sup>2 < 1" for x :: real
    using that by (metis abs_square_less_1)
  have "(vx (rotate t a b c))\<^sup>2 < 1"
    using s zero_le_power2 [of "vy (rotate t a b c)"] zero_le_power2 [of "vz (rotate t a b c)"]
    by linarith
  then show "\<bar>vx (rotate t a b c)\<bar> < 1" by (rule lt)
  have "(vy (rotate t a b c))\<^sup>2 < 1"
    using s zero_le_power2 [of "vx (rotate t a b c)"] zero_le_power2 [of "vz (rotate t a b c)"]
    by linarith
  then show "\<bar>vy (rotate t a b c)\<bar> < 1" by (rule lt)
  have "(vz (rotate t a b c))\<^sup>2 < 1"
    using s zero_le_power2 [of "vx (rotate t a b c)"] zero_le_power2 [of "vy (rotate t a b c)"]
    by linarith
  then show "\<bar>vz (rotate t a b c)\<bar> < 1" by (rule lt)
qed

lemma abs_trunc_le: "\<bar>real_of_int (trunc_toward_zero r)\<bar> \<le> \<bar>r\<bar>"
proof (cases "r < 0")
  case True
  then have "0 \<le> \<lfloor>- r\<rfloor>" by simp
  then have "\<bar>real_of_int (- \<lfloor>- r\<rfloor>)\<bar> = real_of_int \<lfloor>- r\<rfloor>" by simp
  also have "\<dots> \<le> - r" by (rule of_int_floor_le)
  finally show ?thesis using True by (simp add: trunc_toward_zero_def)
next
  case False
  then have "0 \<le> \<lfloor>r\<rfloor>" by simp
  then have "\<bar>real_of_int \<lfloor>r\<rfloor>\<bar> = real_of_int \<lfloor>r\<rfloor>" by simp
  also have "\<dots> \<le> r" by (rule of_int_floor_le)
  finally show ?thesis using False by (simp add: trunc_toward_zero_def)
qed

lemma trunc_bound:
  assumes "\<bar>r\<bar> \<le> real_of_int m"
  shows "\<bar>trunc_toward_zero r\<bar> \<le> m"
proof -
  have "\<bar>real_of_int (trunc_toward_zero r)\<bar> \<le> real_of_int m"
    using abs_trunc_le [of r] assms by linarith
  then show ?thesis by linarith
qed

lemma representableI: "\<bar>n\<bar> \<le> 2147483647 \<Longrightarrow> representable n"
  by (simp add: representable_def INT_MIN_def INT_MAX_def abs_le_iff)

lemma K1_bound:
  assumes "globals_ok g"
  shows "0 < K1 g" "K1 g < 3 * real_of_int (WIDTH g)"
proof -
  have W: "0 < real_of_int (WIDTH g)" using assms by (simp add: globals_ok_def)
  have k: "K1 g = real_of_int (WIDTH g) * (30 / (8 * sqrt 3))"
    using assms by (simp add: globals_ok_def K2_def CUBE_SIZE_def)
  have c: "0 < 30 / (8 * sqrt 3)" "30 / (8 * sqrt 3) < 3"
    using sqrt3_lower by (simp_all add: field_simps)
  show "0 < K1 g" unfolding k using W c(1) by (rule mult_pos_pos)
  have "real_of_int (WIDTH g) * (30 / (8 * sqrt 3)) < real_of_int (WIDTH g) * 3"
    using c(2) W by (rule mult_strict_left_mono)
  then show "K1 g < 3 * real_of_int (WIDTH g)" unfolding k by simp
qed

lemma project_defined:
  assumes g: "globals_ok g" and t: "unit_trig t"
    and i: "\<bar>i\<bar> \<le> 1 / 2" and j: "\<bar>j\<bar> \<le> 1 / 2" and k: "\<bar>k\<bar> \<le> 1 / 2"
  shows "\<exists>index ooz. project g t i j k = Some (index, ooz)"
proof -
  define x y z where "x = vx (rotate t j i k)" "y = vy (rotate t j i k)"
    "z = vz (rotate t j i k) + K2"
  define W H where "W = WIDTH g" "H = HEIGHT g"
  have WH: "0 < W" "W \<le> 10000" "0 < H" "H \<le> 10000"
    using g by (simp_all add: globals_ok_def W_H_def)
  have r: "\<bar>x\<bar> < 1" "\<bar>y\<bar> < 1" "\<bar>vz (rotate t j i k)\<bar> < 1"
    unfolding x_y_z_def using rotate_bound [OF t j i k] by simp_all
  have z: "9 < z" "z < 11" using r(3) by (simp_all add: x_y_z_def K2_def abs_less_iff)
  then have z0: "z \<noteq> 0" by simp
  define e where "e = K1 g * (1 / z)"
  have e: "0 < e" "e < real_of_int W"
  proof -
    have oz: "0 < 1 / z" "1 / z < 1 / 3" using z by (simp_all add: field_simps)
    show "0 < e" unfolding e_def using K1_bound(1) [OF g] oz(1) by (rule mult_pos_pos)
    have "K1 g * (1 / z) < (3 * real_of_int W) * (1 / 3)"
      using K1_bound [OF g] oz by (intro mult_strict_mono) (simp_all add: W_H_def)
    then show "e < real_of_int W" by (simp add: e_def)
  qed
  have ex: "\<bar>e * x\<bar> \<le> real_of_int W" and ey: "\<bar>e * y\<bar> \<le> real_of_int W"
  proof -
    have "\<bar>e * x\<bar> = e * \<bar>x\<bar>" using e(1) by (simp add: abs_mult)
    also have "\<dots> \<le> e * 1" using r(1) e(1) by (intro mult_left_mono) auto
    finally show "\<bar>e * x\<bar> \<le> real_of_int W" using e(2) by simp
    have "\<bar>e * y\<bar> = e * \<bar>y\<bar>" using e(1) by (simp add: abs_mult)
    also have "\<dots> \<le> e * 1" using r(2) e(1) by (intro mult_left_mono) auto
    finally show "\<bar>e * y\<bar> \<le> real_of_int W" using e(2) by simp
  qed
  define xp yp where "xp = trunc_toward_zero (real_of_int (W div 2) + e * x)"
    "yp = trunc_toward_zero (real_of_int (H div 2) - e * y)"
  have "0 \<le> W div 2" "W div 2 \<le> W" "0 \<le> H div 2" "H div 2 \<le> H"
    using WH by simp_all
  then have w2: "0 \<le> real_of_int (W div 2)" "real_of_int (W div 2) \<le> real_of_int W"
    "0 \<le> real_of_int (H div 2)" "real_of_int (H div 2) \<le> real_of_int H"
    by linarith+
  have "\<bar>real_of_int (W div 2) + e * x\<bar> \<le> real_of_int W + real_of_int W"
    using ex w2(1,2) by linarith
  then have "\<bar>real_of_int (W div 2) + e * x\<bar> \<le> real_of_int (2 * W)" by simp
  then have xpb: "\<bar>xp\<bar> \<le> 2 * W" unfolding xp_yp_def by (rule trunc_bound)
  have "\<bar>real_of_int (H div 2) - e * y\<bar> \<le> real_of_int H + real_of_int W"
    using ey w2(3,4) by linarith
  then have "\<bar>real_of_int (H div 2) - e * y\<bar> \<le> real_of_int (H + W)" by simp
  then have ypb: "\<bar>yp\<bar> \<le> H + W" unfolding xp_yp_def by (rule trunc_bound)
  have ypw: "\<bar>yp * W\<bar> \<le> 200000000"
  proof -
    have "\<bar>yp * W\<bar> = \<bar>yp\<bar> * W" using WH(1) by (simp add: abs_mult)
    also have "\<dots> \<le> 20000 * 10000"
      using ypb WH by (intro mult_mono) auto
    finally show ?thesis by simp
  qed
  have rep: "representable xp" "representable yp" "representable (yp * W)"
    "representable (xp + yp * W)"
    using xpb ypb ypw WH by (auto intro!: representableI)
  have xp': "xp = trunc_toward_zero (real_of_int (W div 2) + K1 g * x / z)"
    and yp': "yp = trunc_toward_zero (real_of_int (H div 2) - K1 g * y / z)"
    by (simp_all add: xp_yp_def e_def)
  have "project g t i j k = Some (xp + yp * W, 1 / z)"
    unfolding project_iff Let_def
    using z0 rep
    by (simp add: x_y_z_def [symmetric] W_H_def [symmetric] xp' [symmetric] yp' [symmetric])
  then show ?thesis by blast
qed

lemma luminance_defined:
  assumes "\<bar>l\<bar> \<le> 1"
  shows "\<exists>li c. static_cast_int (l * 11) = Some li \<and> glyph l li = Some c"
proof -
  have "\<bar>l * 11\<bar> \<le> real_of_int 11" using assms by simp
  then have b: "\<bar>trunc_toward_zero (l * 11)\<bar> \<le> 11" by (rule trunc_bound)
  then have c: "static_cast_int (l * 11) = Some (trunc_toward_zero (l * 11))"
    by (simp add: static_cast_int_eq representableI)
  have "\<exists>c. glyph l (trunc_toward_zero (l * 11)) = Some c"
  proof (cases "l > 0")
    case True
    then have "0 \<le> trunc_toward_zero (l * 11)" by (simp add: trunc_toward_zero_def)
    with b True show ?thesis
      by (simp add: glyph_def literal_at_def ramp_literal_def length_ramp)
  next
    case False
    then show ?thesis
      by (simp add: glyph_def literal_at_def ramp_literal_def length_ramp)
  qed
  with c show ?thesis by blast
qed

lemma updateBuffers_defined:
  assumes "globals_ok g" "unit_trig t" "\<bar>i\<bar> \<le> 1 / 2" "\<bar>j\<bar> \<le> 1 / 2" "\<bar>k\<bar> \<le> 1 / 2"
    and "\<bar>luminance\<bar> \<le> 1"
  shows "\<exists>b'. updateBuffers g i j k t b color luminance = Some b'"
proof -
  obtain index ooz where p: "project g t i j k = Some (index, ooz)"
    using project_defined [OF assms(1-5)] by blast
  obtain li c where l: "static_cast_int (luminance * 11) = Some li" "glyph luminance li = Some c"
    using luminance_defined [OF assms(6)] by blast
  show ?thesis
    by (simp add: updateBuffers_eq [OF p l(1)] l(2))
qed

lemma two_writes_defined:
  assumes "globals_ok g" "unit_trig t" "\<bar>i\<bar> \<le> 1 / 2" "\<bar>j\<bar> \<le> 1 / 2" "\<bar>k\<bar> \<le> 1 / 2"
    and "\<bar>i'\<bar> \<le> 1 / 2" "\<bar>j'\<bar> \<le> 1 / 2" "\<bar>k'\<bar> \<le> 1 / 2"
    and "\<bar>lf\<bar> \<le> 1" "\<bar>lb\<bar> \<le> 1"
  shows "\<exists>b''. Option.bind (updateBuffers g i j k t b c1 lf)
                  (\<lambda>b'. updateBuffers g i' j' k' t b' c2 lb) = Some b''"
proof -
  obtain b' where 1: "updateBuffers g i j k t b c1 lf = Some b'"
    using updateBuffers_defined [OF assms(1-5) assms(9)] by blast
  obtain b'' where "updateBuffers g i' j' k' t b' c2 lb = Some b''"
    using updateBuffers_defined [OF assms(1,2) assms(6-8) assms(10)] by blast
  with 1 show ?thesis by simp
qed

lemma in_range_abs: "- CUBE_SIZE / 2 \<le> v \<Longrightarrow> v \<le> CUBE_SIZE / 2 \<Longrightarrow> \<bar>v\<bar> \<le> 1 / 2"
  by (simp add: CUBE_SIZE_def abs_le_iff)

lemma renderCubeAxis_A_defined:
  assumes g: "globals_ok g" and t: "unit_trig t"
  shows "\<exists>b'. renderCubeAxis_A g t b color1 color2 = Some b'"
proof -
  have sp: "0 < SPACING g" using g by (simp add: globals_ok_def)
  have l: "\<bar>faceLuminance g t n\<bar> \<le> 1" for n
    using g by (intro faceLuminance_range) (simp add: globals_ok_def)
  have h: "\<bar>CUBE_SIZE / 2\<bar> \<le> 1 / 2" "\<bar>- (CUBE_SIZE / 2)\<bar> \<le> 1 / 2"
    by (simp_all add: CUBE_SIZE_def)
  show ?thesis
    unfolding renderCubeAxis_A_def Let_def
  proof (rule sweep_total_range [OF sp])
    fix i s assume i: "- CUBE_SIZE / 2 \<le> i" "i \<le> CUBE_SIZE / 2"
    show "\<exists>s'. sweep (SPACING g)
             (point_A g t color1 color2 (faceLuminance g t \<lparr>vx = 0, vy = 0, vz = CUBE_SIZE\<rparr>)
               (faceLuminance g t \<lparr>vx = 0, vy = 0, vz = - CUBE_SIZE\<rparr>) (CUBE_SIZE / 2) i)
             (- CUBE_SIZE / 2) s = Some s'"
    proof (rule sweep_total_range [OF sp])
      fix j s assume j: "- CUBE_SIZE / 2 \<le> j" "j \<le> CUBE_SIZE / 2"
      show "\<exists>s'. point_A g t color1 color2 (faceLuminance g t \<lparr>vx = 0, vy = 0, vz = CUBE_SIZE\<rparr>)
               (faceLuminance g t \<lparr>vx = 0, vy = 0, vz = - CUBE_SIZE\<rparr>) (CUBE_SIZE / 2) i j s
             = Some s'"
        unfolding point_A_def
        using two_writes_defined [OF g t in_range_abs [OF i] in_range_abs [OF j] h(1)
            in_range_abs [OF i] in_range_abs [OF j] h(2) l l]
        by (simp split: prod.splits)
    qed simp
  qed simp
qed

lemma renderCubeAxis_B_defined:
  assumes g: "globals_ok g" and t: "unit_trig t"
  shows "\<exists>b'. renderCubeAxis_B g t b color1 color2 = Some b'"
proof -
  have sp: "0 < SPACING g" using g by (simp add: globals_ok_def)
  have l: "\<bar>faceLuminance g t n\<bar> \<le> 1" for n
    using g by (intro faceLuminance_range) (simp add: globals_ok_def)
  have h: "\<bar>CUBE_SIZE / 2\<bar> \<le> 1 / 2" "\<bar>- (CUBE_SIZE / 2)\<bar> \<le> 1 / 2"
    by (simp_all add: CUBE_SIZE_def)
  show ?thesis
    unfolding renderCubeAxis_B_def Let_def
  proof (rule sweep_total_range [OF sp])
    fix j s assume j: "- CUBE_SIZE / 2 \<le> j" "j \<le> CUBE_SIZE / 2"
    show "\<exists>s'. sweep (SPACING g)
             (point_B g t color1 color2 (faceLuminance g t \<lparr>vx = 0, vy = CUBE_SIZE, vz = 0\<rparr>)
               (faceLuminance g t \<lparr>vx = 0, vy = - CUBE_SIZE, vz = 0\<rparr>) (CUBE_SIZE / 2) j)
             (- CUBE_SIZE / 2) s = Some s'"
    proof (rule sweep_total_range [OF sp])
      fix k s assume k: "- CUBE_SIZE / 2 \<le> k" "k \<le> CUBE_SIZE / 2"
      show "\<exists>s'. point_B g t color1 color2 (faceLuminance g t \<lparr>vx = 0, vy = CUBE_SIZE, vz = 0\<rparr>)
               (faceLuminance g t \<lparr>vx = 0, vy = - CUBE_SIZE, vz = 0\<rparr>) (CUBE_SIZE / 2) j k s
             = Some s'"
        unfolding point_B_def
        using two_writes_defined [OF g t h(1) in_range_abs [OF j] in_range_abs [OF k]
            h(2) in_range_abs [OF j] in_range_abs [OF k] l l]
        by (simp split: prod.splits)
    qed simp
  qed simp
qed

lemma renderCubeAxis_C_defined:
  assumes g: "globals_ok g" and t: "unit_trig t"
  shows "\<exists>b'. renderCubeAxis_C g t b color1 color2 = Some b'"
proof -
  have sp: "0 < SPACING g" using g by (simp add: globals_ok_def)
  have l: "\<bar>faceLuminance g t n\<bar> \<le> 1" for n
    using g by (intro faceLuminance_range) (simp add: globals_ok_def)
  have h: "\<bar>CUBE_SIZE / 2\<bar> \<le> 1 / 2" "\<bar>- (CUBE_SIZE / 2)\<bar> \<le> 1 / 2"
    by (simp_all add: CUBE_SIZE_def)
  show ?thesis
    unfolding renderCubeAxis_C_def Let_def
  proof (rule sweep_total_range [OF sp])
    fix k s assume k: "- CUBE_SIZE / 2 \<le> k" "k \<le> CUBE_SIZE / 2"
    show "\<exists>s'. sweep (SPACING g)
             (point_C g t color1 color2 (faceLuminance g t \<lparr>vx = CUBE_SIZE, vy = 0, vz = 0\<rparr>)
               (faceLuminance g t \<lparr>vx = - CUBE_SIZE, vy = 0, vz = 0\<rparr>) (CUBE_SIZE / 2) k)
             (- CUBE_SIZE / 2) s = Some s'"
    proof (rule sweep_total_range [OF sp])
      fix i s assume i: "- CUBE_SIZE / 2 \<le> i" "i \<le> CUBE_SIZE / 2"
      show "\<exists>s'. point_C g t color1 color2 (faceLuminance g t \<lparr>vx = CUBE_SIZE, vy = 0, vz = 0\<rparr>)
               (faceLuminance g t \<lparr>vx = - CUBE_SIZE, vy = 0, vz = 0\<rparr>) (CUBE_SIZE / 2) k i s
             = Some s'"
        unfolding point_C_def
        using two_writes_defined [OF g t in_range_abs [OF i] h(1) in_range_abs [OF k]
            in_range_abs [OF i] h(2) in_range_abs [OF k] l l]
        by (simp split: prod.splits)
    qed simp
  qed simp
qed

lemma populate_defined:
  assumes g: "globals_ok g" and t: "unit_trig t"
  shows "\<exists>b'. populate g t b = Some b'"
proof -
  obtain b1 where 1: "renderCubeAxis_A g t b YELLOW WHITE = Some b1"
    using renderCubeAxis_A_defined [OF g t] by blast
  obtain b2 where 2: "renderCubeAxis_B g t b1 GREEN BLUE = Some b2"
    using renderCubeAxis_B_defined [OF g t] by blast
  obtain b3 where 3: "renderCubeAxis_C g t b2 BOLD_RED RED = Some b3"
    using renderCubeAxis_C_defined [OF g t] by blast
  from 1 2 3 show ?thesis by (simp add: populate_def)
qed

lemma renderFrame_returns:
  assumes g: "globals_ok g" and t: "unit_trig t"
  shows "\<exists>sc' out. renderFrame g t sc = Some (sc', out)"
proof -
  obtain b3 where "populate g t \<lparr>buffer = fill (buffer (cur sc)) CHR '' '',
                    zbuffer = fill (zbuffer (cur sc)) 0,
                    cbuffer = fill (cbuffer (cur sc)) RESET\<rparr> = Some b3"
    using populate_defined [OF g t] by blast
  then show ?thesis by (simp add: renderFrame_def Let_def)
qed

lemma unit_trigValues: "unit_trig (trigValues A B C)"
  by (simp add: unit_trig_def trigValues_def)

lemma globals_ok_updateDim:
  assumes "updateDim d g sc = Some (g', sc', out)"
    and "0 < w d" "w d \<le> 10000" "0 < h d" "h d \<le> 10000"
    and "getVectorMag (rotatedLightSource g) \<le> 1"
  shows "globals_ok g'"
proof -
  have "WIDTH g' = w d \<and> HEIGHT g' = h d
         \<and> K1 g' = (real_of_int (WIDTH g') * K2 * 3) / (8 * (sqrt 3 * CUBE_SIZE))
         \<and> SPACING g' = 3 / real_of_int (WIDTH g')"
    using assms(1-4) by (intro updateDim_K1) auto
  moreover have "rotatedLightSource g' = rotatedLightSource g"
    using assms(1) unfolding updateDim_def Let_def
    by (auto split: if_splits option.splits)
  ultimately show ?thesis
    using assms(2-6) by (simp add: globals_ok_def)
qed

lemma main_globals_ok: "globals_ok main_globals"
  using main_light_unit
  by (simp add: globals_ok_def main_globals_def initial_globals_def)

lemma small_globals_ok: "globals_ok small_globals"
  by (simp add: globals_ok_def small_globals_def getVectorMag_def Let_def field_simps)

section \<open>The claims\<close>

text \<open>
  Claim C1 (depth-test correctness). Two candidate writes of \<open>updateBuffers\<close> go to the same
  cell \<open>index\<close> of the buffers, with inverse depths \<open>ooz1\<close> and \<open>ooz2\<close>, both above the depth
  the cell holds before. If \<open>ooz1 > ooz2\<close>, then after both calls, in either order, the cell
  holds the glyph, the colour and the depth of the \<open>ooz1\<close> candidate. If the two depths are
  equal, the cell holds what the call processed first wrote.
\<close>

theorem depth_test_nearest_wins:
  assumes ok: "bufs_ok b"
    and p1: "project g t i1 j1 k1 = Some (index, ooz1)"
    and p2: "project g t i2 j2 k2 = Some (index, ooz2)"
    and l1: "static_cast_int (lum1 * 11) = Some li1" and gl1: "glyph lum1 li1 = Some c1"
    and l2: "static_cast_int (lum2 * 11) = Some li2" and gl2: "glyph lum2 li2 = Some c2"
    and inb: "0 \<le> index" "index < int (length (buffer b))"
    and prior: "zbuffer b ! nat index < ooz2"
  shows "(ooz2 < ooz1 \<longrightarrow>
           (\<exists>b'. Option.bind (updateBuffers g i1 j1 k1 t b col1 lum1)
                    (\<lambda>b1. updateBuffers g i2 j2 k2 t b1 col2 lum2) = Some b'
                  \<and> cell b' (nat index) = (c1, col1, ooz1))
         \<and> (\<exists>b'. Option.bind (updateBuffers g i2 j2 k2 t b col2 lum2)
                    (\<lambda>b2. updateBuffers g i1 j1 k1 t b2 col1 lum1) = Some b'
                  \<and> cell b' (nat index) = (c1, col1, ooz1)))
       \<and> (ooz2 = ooz1 \<longrightarrow>
           (\<exists>b'. Option.bind (updateBuffers g i1 j1 k1 t b col1 lum1)
                    (\<lambda>b1. updateBuffers g i2 j2 k2 t b1 col2 lum2) = Some b'
                  \<and> cell b' (nat index) = (c1, col1, ooz1)))"
proof -
  let ?n = "nat index"
  let ?w1 = "b\<lparr>zbuffer := (zbuffer b)[?n := ooz1], cbuffer := (cbuffer b)[?n := col1],
                buffer := (buffer b)[?n := c1]\<rparr>"
  let ?w2 = "b\<lparr>zbuffer := (zbuffer b)[?n := ooz2], cbuffer := (cbuffer b)[?n := col2],
                buffer := (buffer b)[?n := c2]\<rparr>"
  have n: "?n < length (buffer b)" "?n < length (zbuffer b)"
    using inb ok by (auto simp: bufs_ok_def)
  have c1: "cell ?w1 ?n = (c1, col1, ooz1)"
    using ok n by (simp add: cell_write)
  have le1: "ooz2 \<le> ooz1 \<Longrightarrow> updateBuffers g i1 j1 k1 t b col1 lum1 = Some ?w1"
    using prior inb by (intro updateBuffers_write [OF p1 l1 gl1]) auto
  have keep1: "ooz2 \<le> ooz1 \<Longrightarrow> updateBuffers g i2 j2 k2 t ?w1 col2 lum2 = Some ?w1"
    using n by (intro updateBuffers_keep [OF p2 l2]) simp
  have first2: "updateBuffers g i2 j2 k2 t b col2 lum2 = Some ?w2"
    using prior inb by (intro updateBuffers_write [OF p2 l2 gl2]) auto
  have over2: "ooz2 < ooz1 \<Longrightarrow> updateBuffers g i1 j1 k1 t ?w2 col1 lum1 = Some ?w1"
    using n inb by (simp add: updateBuffers_write [OF p1 l1 gl1])
  show ?thesis
    using c1 le1 keep1 first2 over2 by simp
qed

theorem depth_test_nearest_wins_witness:
  "bufs_ok initial_bufs
   \<and> project initial_globals (trigValues 0 0 0) 0 0 (- 1 / 2) = Some (625, 2 / 19)
   \<and> project initial_globals (trigValues 0 0 0) 0 0 (1 / 2) = Some (625, 2 / 21)
   \<and> zbuffer initial_bufs ! 625 < 2 / 21
   \<and> (\<exists>b'. Option.bind
             (updateBuffers initial_globals 0 0 (- 1 / 2) (trigValues 0 0 0) initial_bufs WHITE (1 / 2))
             (\<lambda>b1. updateBuffers initial_globals 0 0 (1 / 2) (trigValues 0 0 0) b1 YELLOW 0) = Some b'
           \<and> cell b' 625 = (CHR '';'', WHITE, 2 / 19))
   \<and> (\<exists>b'. Option.bind
             (updateBuffers initial_globals 0 0 (1 / 2) (trigValues 0 0 0) initial_bufs YELLOW 0)
             (\<lambda>b2. updateBuffers initial_globals 0 0 (- 1 / 2) (trigValues 0 0 0) b2 WHITE (1 / 2)) = Some b'
           \<and> cell b' 625 = (CHR '';'', WHITE, 2 / 19))
   \<and> (\<exists>b'. Option.bind
             (updateBuffers initial_globals 0 0 (1 / 2) (trigValues 0 0 0) initial_bufs YELLOW 0)
             (\<lambda>b1. updateBuffers initial_globals 0 0 (1 / 2) (trigValues 0 0 0) b1 WHITE (1 / 2)) = Some b'
           \<and> cell b' 625 = (CHR ''.'', YELLOW, 2 / 21))"
proof -
  have p1: "project initial_globals (trigValues 0 0 0) 0 0 (- 1 / 2) = Some (625, 2 / 19)"
    using project_center [of "- 1 / 2"] by simp
  have p2: "project initial_globals (trigValues 0 0 0) 0 0 (1 / 2) = Some (625, 2 / 21)"
    using project_center [of "1 / 2"] by simp
  have z: "zbuffer initial_bufs ! nat 625 < 2 / 21" "(0::int) \<le> 625"
    "625 < int (length (buffer initial_bufs))"
    by (simp_all add: initial_bufs_def)
  have strict: "(2::real) / 21 < 2 / 19" by simp
  note a = depth_test_nearest_wins [OF initial_bufs_ok p1 p2 cast_half glyph_half cast_zero glyph_zero z(2,3,1),
      of WHITE YELLOW]
  note b = depth_test_nearest_wins [OF initial_bufs_ok p2 p2 cast_zero glyph_zero cast_half glyph_half z(2,3,1),
      of YELLOW WHITE]
  from a b strict initial_bufs_ok p1 p2 z(1) show ?thesis by simp
qed



text \<open>
  Claim C3 (diff-emit). The diff-emit pass of \<open>renderFrame\<close> skips a cell exactly when both
  its character and its colour equal the snapshot of the previous frame; for every other
  cell, in index order, it prints the cursor move to the cell's 1-based row and column,
  the colour and the glyph. When the glyph of one cell differs between two consecutive
  frames and every other cell keeps its glyph and colour, the output addresses that cell
  alone. For a positive \<open>WIDTH\<close>
  the row and column printed for cell \<open>n\<close> are its row-major coordinates.
\<close>

theorem diff_emit_changed_cells:
  "diffEmit W buf prev cbuf cprev 0 =
     map (emit W buf cbuf) (filter (changed buf prev cbuf cprev) [0..<length buf])
   \<and> (\<forall>n < length buf.
        buf ! n \<noteq> prev ! n
        \<and> (\<forall>i < length buf. i \<noteq> n \<longrightarrow> buf ! i = prev ! i \<and> cbuf ! i = cprev ! i)
        \<longrightarrow> diffEmit W buf prev cbuf cprev 0
              = [PutCell (int n div W + 1) (int n mod W + 1) (cbuf ! n) (buf ! n)])
   \<and> (\<forall>n. 0 < W \<longrightarrow>
        1 \<le> int n div W + 1 \<and> 1 \<le> int n mod W + 1 \<and> int n mod W + 1 \<le> W
        \<and> (int n div W + 1 - 1) * W + (int n mod W + 1 - 1) = int n)
   \<and> (\<forall>g t sc sc' out. renderFrame g t sc = Some (sc', out) \<longrightarrow>
        buffer_prev sc' = buffer (cur sc) \<and> cbuffer_prev sc' = cbuffer (cur sc)
        \<and> out = SetCursorHome
                  # diffEmit (WIDTH g) (buffer (cur sc')) (buffer_prev sc')
                      (cbuffer (cur sc')) (cbuffer_prev sc') 0)"
proof (intro conjI allI impI)
  show "diffEmit W buf prev cbuf cprev 0 =
     map (emit W buf cbuf) (filter (changed buf prev cbuf cprev) [0..<length buf])"
    by (rule diffEmit_from)
next
  fix n
  assume n: "n < length buf"
    and h: "buf ! n \<noteq> prev ! n
        \<and> (\<forall>i < length buf. i \<noteq> n \<longrightarrow> buf ! i = prev ! i \<and> cbuf ! i = cprev ! i)"
  have "filter (changed buf prev cbuf cprev) [0..<length buf] = [n]"
    using n h by (intro filter_single) (auto simp: changed_def)
  then show "diffEmit W buf prev cbuf cprev 0
              = [PutCell (int n div W + 1) (int n mod W + 1) (cbuf ! n) (buf ! n)]"
    by (simp add: diffEmit_from emit_def)
next
  fix n :: nat assume W: "0 < W"
  then show "1 \<le> int n div W + 1" by (simp add: pos_imp_zdiv_nonneg_iff)
  from W show "1 \<le> int n mod W + 1" by simp
  from W show "int n mod W + 1 \<le> W" using pos_mod_bound [of W "int n"] by linarith
  show "(int n div W + 1 - 1) * W + (int n mod W + 1 - 1) = int n" by simp
next
  fix g t sc sc' out
  assume "renderFrame g t sc = Some (sc', out)"
  then obtain b3 where
    "sc' = \<lparr>cur = b3, buffer_prev = buffer (cur sc), cbuffer_prev = cbuffer (cur sc)\<rparr>"
    "out = SetCursorHome
             # diffEmit (WIDTH g) (buffer b3) (buffer (cur sc)) (cbuffer b3) (cbuffer (cur sc)) 0"
    by (rule renderFrame_Some)
  then show "buffer_prev sc' = buffer (cur sc)" "cbuffer_prev sc' = cbuffer (cur sc)"
    "out = SetCursorHome
             # diffEmit (WIDTH g) (buffer (cur sc')) (buffer_prev sc')
                 (cbuffer (cur sc')) (cbuffer_prev sc') 0"
    by simp_all
qed

theorem diff_emit_changed_cells_witness:
  "diffEmit 2 [CHR ''!'', CHR '' '', CHR ''!'', CHR ''.''] [CHR ''!'', CHR '' '', CHR ''#'', CHR ''.'']
     [GREEN, RESET, WHITE, BOLD_RED] [GREEN, RESET, WHITE, BOLD_RED] 0
     = [PutCell 2 1 WHITE CHR ''!'']
   \<and> diffEmit 2 [CHR ''!'', CHR '' '', CHR ''!'', CHR ''.''] [CHR '' '', CHR '' '', CHR '' '', CHR '' '']
     [GREEN, RESET, WHITE, BOLD_RED] [RESET, RESET, RESET, RESET] 0
     = [PutCell 1 1 GREEN CHR ''!'', PutCell 2 1 WHITE CHR ''!'', PutCell 2 2 BOLD_RED CHR ''.'']
   \<and> (\<exists>sc' out. renderFrame small_globals t0 (blank_screen 4) = Some (sc', out)
        \<and> buffer_prev sc' = buffer (cur (blank_screen 4))
        \<and> out = SetCursorHome
                  # diffEmit (WIDTH small_globals) (buffer (cur sc')) (buffer_prev sc')
                      (cbuffer (cur sc')) (cbuffer_prev sc') 0)"
proof -
  let ?buf = "[CHR ''!'', CHR '' '', CHR ''!'', CHR ''.'']"
  let ?prev = "[CHR ''!'', CHR '' '', CHR ''#'', CHR ''.'']"
  let ?c = "[GREEN, RESET, WHITE, BOLD_RED]"
  note th = diff_emit_changed_cells [of 2 ?buf ?prev ?c ?c]
  have one: "\<forall>i < length ?buf. i \<noteq> 2 \<longrightarrow> ?buf ! i = ?prev ! i \<and> ?c ! i = ?c ! i"
    by (simp add: less_Suc_eq nth_Cons')
  from th have "\<forall>n < length ?buf.
        ?buf ! n \<noteq> ?prev ! n
        \<and> (\<forall>i < length ?buf. i \<noteq> n \<longrightarrow> ?buf ! i = ?prev ! i \<and> ?c ! i = ?c ! i)
        \<longrightarrow> diffEmit 2 ?buf ?prev ?c ?c 0
              = [PutCell (int n div 2 + 1) (int n mod 2 + 1) (?c ! n) (?buf ! n)]"
    by blast
  then have "?buf ! 2 \<noteq> ?prev ! 2
        \<and> (\<forall>i < length ?buf. i \<noteq> 2 \<longrightarrow> ?buf ! i = ?prev ! i \<and> ?c ! i = ?c ! i)
        \<longrightarrow> diffEmit 2 ?buf ?prev ?c ?c 0
              = [PutCell (int 2 div 2 + 1) (int 2 mod 2 + 1) (?c ! 2) (?buf ! 2)]"
    by (rule allE [where x = 2]) simp
  with one have 1: "diffEmit 2 ?buf ?prev ?c ?c 0 = [PutCell 2 1 WHITE CHR ''!'']"
    by simp
  have 2: "diffEmit 2 ?buf [CHR '' '', CHR '' '', CHR '' '', CHR '' ''] ?c
             [RESET, RESET, RESET, RESET] 0
     = [PutCell 1 1 GREEN CHR ''!'', PutCell 2 1 WHITE CHR ''!'', PutCell 2 2 BOLD_RED CHR ''.'']"
    by (simp add: diffEmit.simps numeral_eq_Suc color_defs)
  from 1 2 renderFrame_small show ?thesis
    by (simp add: blank_screen_def blank_def frame_C_def small_globals_fields numeral_eq_Suc)
qed



text \<open>
  Claim C6 (grid-line override). For a sample point of a face, when one of its two swept
  coordinates lies less than \<open>GRID_SPACING\<close> from a band centre (one third or two thirds
  of the way across the face), both colours of the point are the grid-line colour, whatever
  the colours of the face, and the two calls of \<open>updateBuffers\<close> for the point receive that
  colour together with the unchanged luminances of the front and the back face.
\<close>

theorem grid_line_override:
  assumes "in_band a \<or> in_band b"
  shows "gridColors a b color1 color2 = (GRID_LINE_COLOR, GRID_LINE_COLOR)
    \<and> point_A g t color1 color2 lf lb k a b s =
        Option.bind (updateBuffers g a b k t s GRID_LINE_COLOR lf)
          (\<lambda>s'. updateBuffers g a b (- k) t s' GRID_LINE_COLOR lb)
    \<and> point_B g t color1 color2 lf lb i a b s =
        Option.bind (updateBuffers g i a b t s GRID_LINE_COLOR lf)
          (\<lambda>s'. updateBuffers g (- i) a b t s' GRID_LINE_COLOR lb)
    \<and> point_C g t color1 color2 lf lb j a b s =
        Option.bind (updateBuffers g b j a t s GRID_LINE_COLOR lf)
          (\<lambda>s'. updateBuffers g b (- j) a t s' GRID_LINE_COLOR lb)"
  using gridColors_band [OF assms]
  by (simp add: point_A_def point_B_def point_C_def)

theorem grid_line_override_witness:
  "in_band (- 1 / 6)
   \<and> gridColors (- 1 / 6) 0 YELLOW WHITE = (BLACK, BLACK)
   \<and> gridColors 0 (1 / 5) GREEN BLUE = (BLACK, BLACK)
   \<and> point_A small_globals t0 YELLOW WHITE (1 / 2) 0 (1 / 2) (- 1 / 6) 0 frame_C =
        Option.bind (updateBuffers small_globals (- 1 / 6) 0 (1 / 2) t0 frame_C BLACK (1 / 2))
          (\<lambda>s'. updateBuffers small_globals (- 1 / 6) 0 (- (1 / 2)) t0 s' BLACK 0)"
proof -
  have a: "in_band (- 1 / 6)" "in_band (1 / 5)"
    by (simp_all add: in_band_def CUBE_SIZE_def GRID_SPACING_def)
  from a(1) have 1: "in_band (- 1 / 6) \<or> in_band 0" by simp
  from a(2) have 2: "in_band 0 \<or> in_band (1 / 5)" by simp
  from grid_line_override [OF 1, of YELLOW WHITE small_globals t0 "1 / 2" 0 "1 / 2" frame_C]
    grid_line_override [OF 2, of GREEN BLUE small_globals t0 "1 / 2" 0 "1 / 2" frame_C] a(1)
  show ?thesis by (simp add: GRID_LINE_COLOR_def)
qed

text \<open>
  Claim C7 (out-of-bounds writes are dropped). When the linear cell index
  \<open>xp + yp * WIDTH\<close> that \<open>updateBuffers\<close> computes is negative or at least the length of the
  character buffer, the call returns normally and leaves the character, colour and depth
  buffers as they were.
\<close>

theorem out_of_bounds_write_dropped:
  assumes "project g t i j k = Some (index, ooz)"
    and "static_cast_int (luminance * 11) = Some li"
    and "index < 0 \<or> int (length (buffer b)) \<le> index"
  shows "updateBuffers g i j k t b color luminance = Some b"
  using assms by (auto simp add: updateBuffers_eq)

theorem out_of_bounds_write_dropped_witness:
  "project initial_globals (trigValues 0 0 0) 100 0 0 = Some (- 53475, 1 / 10)
   \<and> static_cast_int (1 / 2 * 11) = Some 5
   \<and> updateBuffers initial_globals 100 0 0 (trigValues 0 0 0) initial_bufs WHITE (1 / 2)
      = Some initial_bufs"
  using out_of_bounds_write_dropped [OF project_above cast_half, of initial_bufs WHITE]
    project_above cast_half
  by simp

text \<open>
  Claim C8 (resize), as amended. After a change of the terminal dimensions to \<open>W'\<close> columns
  and \<open>H'\<close> rows is handled (both positive, \<open>W' * H'\<close> within \<open>int\<close>), \<open>K1\<close> and \<open>SPACING\<close>
  are recomputed from the new \<open>WIDTH\<close>, the five buffers have length \<open>W' * H'\<close> and hold
  blanks, the reset colour and depth 0, and the screen is erased. The next diff pass then
  emits exactly the cells of the new frame that are not a blank in the reset colour; it
  skips the others, which the erased screen already shows. For a terminal of at most
  10000 by 10000 cells that next frame is rendered.
\<close>

theorem resize_reinitializes:
  assumes "0 < w d" "0 < h d" "w d * h d \<le> INT_MAX"
  shows "\<exists>g' sc'.
     updateDim d g sc = Some (g', sc', [EraseScreen])
     \<and> WIDTH g' = w d \<and> HEIGHT g' = h d
     \<and> K1 g' = (real_of_int (w d) * K2 * 3) / (8 * (sqrt 3 * CUBE_SIZE))
     \<and> SPACING g' = 3 / real_of_int (w d)
     \<and> buffer (cur sc') = replicate (nat (w d * h d)) CHR '' ''
     \<and> zbuffer (cur sc') = replicate (nat (w d * h d)) 0
     \<and> cbuffer (cur sc') = replicate (nat (w d * h d)) RESET
     \<and> buffer_prev sc' = replicate (nat (w d * h d)) CHR '' ''
     \<and> cbuffer_prev sc' = replicate (nat (w d * h d)) RESET
     \<and> (\<forall>t sc'' out. renderFrame g' t sc' = Some (sc'', out) \<longrightarrow>
           out = SetCursorHome
                   # map (emit (w d) (buffer (cur sc'')) (cbuffer (cur sc'')))
                       (filter (\<lambda>n. \<not> (buffer (cur sc'') ! n = CHR '' ''
                                         \<and> cbuffer (cur sc'') ! n = RESET))
                          [0..<nat (w d * h d)]))
     \<and> (\<forall>t. w d \<le> 10000 \<and> h d \<le> 10000 \<and> getVectorMag (rotatedLightSource g) \<le> 1
              \<and> unit_trig t \<longrightarrow>
           (\<exists>sc'' out. renderFrame g' t sc' = Some (sc'', out)))"
proof -
  let ?n = "nat (w d * h d)"
  let ?g = "g\<lparr>WIDTH := w d, HEIGHT := h d,
              K1 := (real_of_int (w d) * K2 * 3) / (8 * (sqrt 3 * CUBE_SIZE)),
              SPACING := 3 / real_of_int (w d)\<rparr>"
  let ?b = "\<lparr>buffer = replicate ?n CHR '' '', zbuffer = replicate ?n 0,
             cbuffer = replicate ?n RESET\<rparr>"
  let ?sc = "\<lparr>cur = ?b, buffer_prev = replicate ?n CHR '' '', cbuffer_prev = replicate ?n RESET\<rparr>"
  have u: "updateDim d g sc = Some (?g, ?sc, [EraseScreen])"
    using assms by (rule updateDim_positive)
  have next_frame: "out = SetCursorHome
                   # map (emit (w d) (buffer (cur sc'')) (cbuffer (cur sc'')))
                       (filter (\<lambda>n. \<not> (buffer (cur sc'') ! n = CHR '' ''
                                         \<and> cbuffer (cur sc'') ! n = RESET)) [0..<?n])"
    if r: "renderFrame ?g t ?sc = Some (sc'', out)" for t sc'' out
  proof -
    from r obtain b3 where
      p: "populate ?g t \<lparr>buffer = fill (buffer (cur ?sc)) CHR '' '',
                    zbuffer = fill (zbuffer (cur ?sc)) 0,
                    cbuffer = fill (cbuffer (cur ?sc)) RESET\<rparr> = Some b3"
      and sc'': "sc'' = \<lparr>cur = b3, buffer_prev = buffer (cur ?sc), cbuffer_prev = cbuffer (cur ?sc)\<rparr>"
      and out: "out = SetCursorHome
             # diffEmit (WIDTH ?g) (buffer b3) (buffer (cur ?sc)) (cbuffer b3) (cbuffer (cur ?sc)) 0"
      by (rule renderFrame_Some)
    from p have "same_size \<lparr>buffer = fill (buffer (cur ?sc)) CHR '' '',
                    zbuffer = fill (zbuffer (cur ?sc)) 0,
                    cbuffer = fill (cbuffer (cur ?sc)) RESET\<rparr> b3"
      using populate_frame_step by (auto simp: frame_step_def)
    then have len: "length (buffer b3) = ?n"
      by (simp add: same_size_def fill_def)
    show ?thesis
      using out by (simp add: sc'' diffEmit_blank_prev [OF len])
  qed
  have returns: "\<exists>sc'' out. renderFrame ?g t ?sc = Some (sc'', out)"
    if "w d \<le> 10000 \<and> h d \<le> 10000 \<and> getVectorMag (rotatedLightSource g) \<le> 1 \<and> unit_trig t"
    for t
  proof -
    have "globals_ok ?g"
      using u assms(1,2) that by (intro globals_ok_updateDim [OF u]) auto
    with that show ?thesis by (simp add: renderFrame_returns)
  qed
  show ?thesis
    using u next_frame returns by auto
qed

theorem resize_reinitializes_witness:
  "(0::int) < 2 \<and> (2::int) * 2 \<le> INT_MAX
   \<and> updateDim \<lparr>w = 2, h = 2\<rparr> main_globals initial_screen
       = Some (small_globals, blank_screen 4, [EraseScreen])
   \<and> renderFrame small_globals t0 (blank_screen 4) =
       Some (\<lparr>cur = frame_C, buffer_prev = replicate 4 CHR '' '', cbuffer_prev = replicate 4 RESET\<rparr>,
             SetCursorHome
               # map (emit 2 (buffer frame_C) (cbuffer frame_C))
                   (filter (\<lambda>n. \<not> (buffer frame_C ! n = CHR '' '' \<and> cbuffer frame_C ! n = RESET))
                      [0..<4]))"
proof -
  have d: "(0::int) < w \<lparr>w = 2, h = 2\<rparr>" "(0::int) < h \<lparr>w = 2, h = 2\<rparr>"
    "w \<lparr>w = 2, h = 2\<rparr> * h \<lparr>w = 2, h = 2\<rparr> \<le> INT_MAX"
    by (simp_all add: INT_MAX_def)
  from resize_reinitializes [OF d, of main_globals initial_screen] updateDim_small
  have "\<forall>t sc'' out. renderFrame small_globals t (blank_screen 4) = Some (sc'', out) \<longrightarrow>
           out = SetCursorHome
                   # map (emit 2 (buffer (cur sc'')) (cbuffer (cur sc'')))
                       (filter (\<lambda>n. \<not> (buffer (cur sc'') ! n = CHR '' ''
                                         \<and> cbuffer (cur sc'') ! n = RESET))
                          [0..<4])"
    by simp
  with renderFrame_small have "[SetCursorHome, PutCell 1 1 GREEN CHR ''!'', PutCell 2 1 WHITE CHR ''!'',
            PutCell 2 2 BOLD_RED CHR ''.''] = SetCursorHome
               # map (emit 2 (buffer frame_C) (cbuffer frame_C))
                   (filter (\<lambda>n. \<not> (buffer frame_C ! n = CHR '' '' \<and> cbuffer frame_C ! n = RESET))
                      [0..<4])"
    by fastforce
  with renderFrame_small updateDim_small show ?thesis
    by (simp add: INT_MAX_def)
qed

text \<open>
  Claim C8 as it was stated, with every cell considered changed on the next diff pass,
  fails: after the resize to 2 by 2, the next frame of the identity rotation leaves cell 1
  (row 1, column 2) blank, and the diff pass does not address it.
\<close>

theorem resize_not_every_cell_changed:
  "updateDim \<lparr>w = 2, h = 2\<rparr> main_globals initial_screen
     = Some (small_globals, blank_screen 4, [EraseScreen])
   \<and> renderFrame small_globals t0 (blank_screen 4) =
       Some (\<lparr>cur = frame_C, buffer_prev = replicate 4 CHR '' '', cbuffer_prev = replicate 4 RESET\<rparr>,
             [SetCursorHome, PutCell 1 1 GREEN CHR ''!'', PutCell 2 1 WHITE CHR ''!'',
              PutCell 2 2 BOLD_RED CHR ''.''])
   \<and> length (buffer frame_C) = 4
   \<and> cell frame_C 1 = (CHR '' '', RESET, 0)
   \<and> \<not> addresses_every_cell 2 4
          [SetCursorHome, PutCell 1 1 GREEN CHR ''!'', PutCell 2 1 WHITE CHR ''!'',
           PutCell 2 2 BOLD_RED CHR ''.'']"
proof -
  have "\<not> addresses_every_cell 2 4
          [SetCursorHome, PutCell 1 1 GREEN CHR ''!'', PutCell 2 1 WHITE CHR ''!'',
           PutCell 2 2 BOLD_RED CHR ''.'']"
  proof
    assume "addresses_every_cell 2 4
          [SetCursorHome, PutCell 1 1 GREEN CHR ''!'', PutCell 2 1 WHITE CHR ''!'',
           PutCell 2 2 BOLD_RED CHR ''.'']"
    then have "\<exists>color c. PutCell (int 1 div 2 + 1) (int 1 mod 2 + 1) color c
        \<in> set [SetCursorHome, PutCell 1 1 GREEN CHR ''!'', PutCell 2 1 WHITE CHR ''!'',
                PutCell 2 2 BOLD_RED CHR ''.'']"
      unfolding addresses_every_cell_def by (rule allE [where x = 1]) simp
    then show False by simp
  qed
  with updateDim_small renderFrame_small show ?thesis
    by (simp add: frame_C_def cell_def)
qed

text \<open>
  Claim C9 (rendering twice). When \<open>renderFrame\<close> has returned for some globals, trig cache
  and frame state, a second call with the same globals and trig cache on the state the
  first one left returns as well and prints the cursor-home sequence only: its diff pass
  emits no cell. The first call does return for well-formed globals and a trig cache of
  sines and cosines.
\<close>

theorem render_twice_no_updates:
  "(\<forall>sc1 out1. renderFrame g t sc = Some (sc1, out1) \<longrightarrow>
      renderFrame g t sc1
        = Some (sc1\<lparr>buffer_prev := buffer (cur sc1), cbuffer_prev := cbuffer (cur sc1)\<rparr>,
                [SetCursorHome]))
   \<and> (globals_ok g \<and> unit_trig t \<longrightarrow> (\<exists>sc1 out1. renderFrame g t sc = Some (sc1, out1)))"
proof (intro conjI allI impI)
  fix sc1 out1
  assume "renderFrame g t sc = Some (sc1, out1)"
  then show "renderFrame g t sc1
        = Some (sc1\<lparr>buffer_prev := buffer (cur sc1), cbuffer_prev := cbuffer (cur sc1)\<rparr>,
                [SetCursorHome])"
    by (rule renderFrame_again)
next
  assume "globals_ok g \<and> unit_trig t"
  then show "\<exists>sc1 out1. renderFrame g t sc = Some (sc1, out1)"
    by (simp add: renderFrame_returns)
qed

theorem render_twice_no_updates_witness:
  "globals_ok small_globals \<and> unit_trig t0
   \<and> renderFrame small_globals t0 (blank_screen 4) =
     Some (\<lparr>cur = frame_C, buffer_prev = replicate 4 CHR '' '', cbuffer_prev = replicate 4 RESET\<rparr>,
           [SetCursorHome, PutCell 1 1 GREEN CHR ''!'', PutCell 2 1 WHITE CHR ''!'',
            PutCell 2 2 BOLD_RED CHR ''.''])
   \<and> renderFrame small_globals t0
         \<lparr>cur = frame_C, buffer_prev = replicate 4 CHR '' '', cbuffer_prev = replicate 4 RESET\<rparr>
       = Some (\<lparr>cur = frame_C, buffer_prev = buffer frame_C, cbuffer_prev = cbuffer frame_C\<rparr>,
               [SetCursorHome])
   \<and> (\<exists>sc1 out1. renderFrame small_globals t0 initial_screen = Some (sc1, out1))"
proof -
  note a = render_twice_no_updates [of small_globals t0 "blank_screen 4"]
  note b = render_twice_no_updates [of small_globals t0 initial_screen]
  from a renderFrame_small have
    "renderFrame small_globals t0
         \<lparr>cur = frame_C, buffer_prev = replicate 4 CHR '' '', cbuffer_prev = replicate 4 RESET\<rparr>
       = Some (\<lparr>cur = frame_C, buffer_prev = buffer frame_C, cbuffer_prev = cbuffer frame_C\<rparr>,
               [SetCursorHome])"
    by fastforce
  moreover from b small_globals_ok unit_trigValues
  have "\<exists>sc1 out1. renderFrame small_globals t0 initial_screen = Some (sc1, out1)"
    by blast
  ultimately show ?thesis
    using renderFrame_small small_globals_ok unit_trigValues by simp
qed



end
